theory Spec2Isabelle
  imports Complex_Main "HOL-Library.AList" "HOL-Library.Multiset"
begin

section \<open>Conventions of the embedding\<close>

text \<open>
  The battery engine is TypeScript. A JavaScript \<open>number\<close> is modelled as \<open>real\<close>
  where the code computes with fractions (colour distances, means, percentages), as
  \<open>int\<close> where the value is an index that the code compares with bounds, and as
  \<open>nat\<close> where it is a count or a value that the code keeps in \<open>0 .. 2^32 - 1\<close>.
  A division whose divisor is zero yields NaN or an infinity in JavaScript; such a
  division is written \<open>js_div\<close> and returns \<open>None\<close> there, so that a guard in front
  of a division is visible in the model. Strings are \<open>string\<close> (ASCII); an optional
  field is an \<open>option\<close>; a JavaScript \<open>Map\<close> is an association list in insertion
  order, written with \<open>AList.update\<close>, which keeps the position of a key that is
  already present.
\<close>

subsection \<open>Strings\<close>

definition isWhitespace :: "char \<Rightarrow> bool" where
  "isWhitespace c = (c \<in> set [CHR '' '', CHR 0x09, CHR 0x0A, CHR 0x0B, CHR 0x0C, CHR 0x0D])"

text \<open>\<open>String.prototype.trim\<close>.\<close>

definition trim :: "string \<Rightarrow> string" where
  "trim s = rev (dropWhile isWhitespace (rev (dropWhile isWhitespace s)))"

definition lowerChar :: "char \<Rightarrow> char" where
  "lowerChar c =
     (case map_of (zip ''ABCDEFGHIJKLMNOPQRSTUVWXYZ'' ''abcdefghijklmnopqrstuvwxyz'') c of
        Some l \<Rightarrow> l
      | None \<Rightarrow> c)"

text \<open>\<open>String.prototype.toLowerCase\<close>.\<close>

definition toLowerCase :: "string \<Rightarrow> string" where
  "toLowerCase s = map lowerChar s"

definition isLowerHex :: "char \<Rightarrow> bool" where
  "isLowerHex c = (c \<in> set ''0123456789abcdef'')"

definition isUpperHex :: "char \<Rightarrow> bool" where
  "isUpperHex c = (c \<in> set ''ABCDEF'')"

definition isHexDigit :: "char \<Rightarrow> bool" where
  "isHexDigit c = (isLowerHex c \<or> isUpperHex c)"

definition hexVal :: "char \<Rightarrow> nat" where
  "hexVal c =
     (if (48::nat) \<le> of_char c \<and> of_char c \<le> (57::nat) then of_char c - 48
      else if (97::nat) \<le> of_char c \<and> of_char c \<le> (102::nat) then of_char c - 87
      else if (65::nat) \<le> of_char c \<and> of_char c \<le> (70::nat) then of_char c - 55
      else 0)"

definition digitChar :: "nat \<Rightarrow> char" where
  "digitChar d = ''0123456789abcdef'' ! d"

text \<open>
  \<open>Number.prototype.toString(radix)\<close> on a non-negative integer, for a radix from 2 to 16,
  and the decimal rendering of an integer inside a template literal.
\<close>

function natToString :: "nat \<Rightarrow> nat \<Rightarrow> string" where
  "natToString radix n =
     (if radix < 2 \<or> n < radix then [digitChar n]
      else natToString radix (n div radix) @ [digitChar (n mod radix)])"
  by pat_completeness auto
termination
  by (relation "measure (\<lambda>(radix, n). n)") auto

declare natToString.simps [simp del]

definition intToString :: "int \<Rightarrow> string" where
  "intToString i = (if i < 0 then CHR ''-'' # natToString 10 (nat (- i)) else natToString 10 (nat i))"

text \<open>\<open>String.prototype.padStart(2, "0")\<close>.\<close>

definition padStart2 :: "string \<Rightarrow> string" where
  "padStart2 s = replicate (2 - length s) CHR ''0'' @ s"

text \<open>
  \<open>parseInt(s, 16)\<close> on a string that starts with hexadecimal digits or with another
  character that is neither whitespace nor a sign: the longest prefix of digits is read,
  and no digit at all gives NaN (\<open>None\<close>).
\<close>

definition parseInt16 :: "string \<Rightarrow> nat option" where
  "parseInt16 s =
     (let ds = takeWhile isHexDigit s
      in if ds = [] then None else Some (foldl (\<lambda>a c. a * 16 + hexVal c) 0 ds))"

text \<open>\<open>String.prototype.slice(a, b)\<close> for \<open>0 \<le> a \<le> b\<close>.\<close>

definition slice :: "string \<Rightarrow> nat \<Rightarrow> nat \<Rightarrow> string" where
  "slice s a b = take (b - a) (drop a s)"

subsection \<open>Numbers\<close>

text \<open>\<open>Math.round\<close> rounds half up.\<close>

definition js_round :: "real \<Rightarrow> int" where
  "js_round x = \<lfloor>x + 1 / 2\<rfloor>"

definition clamp :: "int \<Rightarrow> int \<Rightarrow> int \<Rightarrow> int" where
  "clamp n a b = max a (min b n)"

definition js_div :: "real \<Rightarrow> real \<Rightarrow> real option" where
  "js_div a b = (if b = 0 then None else Some (a / b))"

section \<open>ColorWheel: hexadecimal colours\<close>

record Rgb =
  rgb_r :: real
  rgb_g :: real
  rgb_b :: real

definition normalizeHex :: "string \<Rightarrow> string" where
  "normalizeHex v =
     (let s = trim v
      in if s = [] then []
         else if hd s = CHR ''#'' then toLowerCase s
         else if length s = 6 \<and> list_all isHexDigit s then CHR ''#'' # toLowerCase s
         else toLowerCase s)"

text \<open>The regular expression \<open>^#[0-9a-f]{6}$\<close>.\<close>

definition isHashHex6 :: "string \<Rightarrow> bool" where
  "isHashHex6 h = (case h of [] \<Rightarrow> False | c # ds \<Rightarrow> c = CHR ''#'' \<and> length ds = 6 \<and> list_all isLowerHex ds)"

definition hexToRgbSafe :: "string \<Rightarrow> Rgb option" where
  "hexToRgbSafe hex =
     (let h = normalizeHex hex
      in if \<not> isHashHex6 h then None
         else case (parseInt16 (slice h 1 3), parseInt16 (slice h 3 5), parseInt16 (slice h 5 7)) of
                (Some r, Some g, Some b) \<Rightarrow> Some \<lparr>rgb_r = real r, rgb_g = real g, rgb_b = real b\<rparr>
              | _ \<Rightarrow> None)"

definition rgbToHex :: "real \<Rightarrow> real \<Rightarrow> real \<Rightarrow> string" where
  "rgbToHex r g b =
     (let rr = padStart2 (natToString 16 (nat (clamp (js_round r) 0 255)));
          gg = padStart2 (natToString 16 (nat (clamp (js_round g) 0 255)));
          bb = padStart2 (natToString 16 (nat (clamp (js_round b) 0 255)))
      in toLowerCase (CHR ''#'' # rr @ gg @ bb))"

section \<open>batteryPlan: the picker trial plan\<close>

datatype Kind = Grapheme | Weekday

text \<open>
  A trial is \<open>{grapheme, kind, repeatIndex}\<close>; a picker response of the stored run has the
  same three fields and more, so it is an extension of the trial record, and \<open>trialKey\<close>
  below accepts both, as the structural type of its parameter does.
\<close>

record PickerTrial =
  grapheme :: string
  kind :: Kind
  repeatIndex :: int

definition DEFAULT_GRAPHEMES :: "string list" where
  "DEFAULT_GRAPHEMES = map (\<lambda>c. [c]) ''ABCDEFGHIJKLMNOPQRSTUVWXYZ''"

definition DEFAULT_WEEKDAYS :: "string list" where
  "DEFAULT_WEEKDAYS =
     [''Monday'', ''Tuesday'', ''Wednesday'', ''Thursday'', ''Friday'', ''Saturday'', ''Sunday'']"

text \<open>
  The generator inside \<open>shuffle\<close>: \<open>s = (s * 1664525 + 1013904223) % 4294967296\<close>. The
  state is a non-negative integer; below \<open>2^32\<close> the product stays below \<open>2^53\<close>, so the
  double arithmetic of the source is exact. \<open>rand()\<close> is the new state divided by \<open>2^32\<close>.
\<close>

definition lcg_next :: "nat \<Rightarrow> nat" where
  "lcg_next s = (s * 1664525 + 1013904223) mod 4294967296"

definition rand_index :: "nat \<Rightarrow> nat \<Rightarrow> nat" where
  "rand_index s i = nat \<lfloor>(real s / 4294967296) * real (i + 1)\<rfloor>"

text \<open>
  The loop \<open>for (i = a.length - 1; i > 0; i--)\<close> of \<open>shuffle\<close>, from \<open>i\<close> downwards. The
  destructuring swap reads both elements before it writes.
\<close>

primrec shuffle_loop :: "'a list \<Rightarrow> nat \<Rightarrow> nat \<Rightarrow> 'a list" where
  "shuffle_loop a s 0 = a"
| "shuffle_loop a s (Suc i') =
     (let i = Suc i';
          s' = lcg_next s;
          j = rand_index s' i
      in shuffle_loop (a[i := a ! j, j := a ! i]) s' i')"

text \<open>\<open>seed ?? Date.now()\<close>: the clock is the last parameter.\<close>

definition shuffle :: "'a list \<Rightarrow> nat option \<Rightarrow> nat \<Rightarrow> 'a list" where
  "shuffle arr seed now =
     shuffle_loop arr (case seed of Some s \<Rightarrow> s | None \<Rightarrow> now) (length arr - 1)"

definition trialsOfRepeat :: "string list \<Rightarrow> string list \<Rightarrow> nat \<Rightarrow> PickerTrial list" where
  "trialsOfRepeat graphemes weekdays r =
     map (\<lambda>g. \<lparr>grapheme = g, kind = Grapheme, repeatIndex = int r\<rparr>) graphemes
     @ map (\<lambda>d. \<lparr>grapheme = d, kind = Weekday, repeatIndex = int r\<rparr>) weekdays"

definition buildPickerTrials ::
  "string list \<Rightarrow> string list \<Rightarrow> nat \<Rightarrow> nat option \<Rightarrow> nat \<Rightarrow> PickerTrial list" where
  "buildPickerTrials graphemes weekdays repeats seed now =
     shuffle (concat (map (trialsOfRepeat graphemes weekdays) [0..<repeats])) seed now"

text \<open>
  The identity of a trial, and the full cross product of the stimuli with the repeat
  indices, written stimulus by stimulus.
\<close>

definition trialIdentity :: "'a PickerTrial_scheme \<Rightarrow> Kind \<times> string \<times> int" where
  "trialIdentity t = (kind t, grapheme t, repeatIndex t)"


section \<open>The picker screen\<close>

record PickerResponse = PickerTrial +
  trialIndex :: int
  atMs :: int
  isNoColor :: bool
  rgb :: "Rgb option"
  hex :: "string option"

datatype Choice = Match | Mismatch

record CongruencyResponse =
  cg_trialIndex :: int
  cg_atMs :: int
  cg_rtMs :: int
  cg_correct :: bool
  cg_expectedMatch :: bool
  cg_stimulusText :: string
  cg_shownHex :: string
  cg_chosen :: Choice

record PickerPlan =
  plan_graphemes :: "string list"
  plan_weekdays :: "string list"

record BatteryRunPayload =
  version :: nat
  createdAtMs :: int
  payload_repeats :: nat
  pickerPlan :: PickerPlan
  pickerResponses :: "PickerResponse list"
  congruencyResponses :: "CongruencyResponse list"

definition kindString :: "Kind \<Rightarrow> string" where
  "kindString k = (case k of Grapheme \<Rightarrow> ''grapheme'' | Weekday \<Rightarrow> ''weekday'')"

text \<open>\<open>`${t.kind}:${t.grapheme}:${t.repeatIndex}`\<close>\<close>

definition trialKey :: "'a PickerTrial_scheme \<Rightarrow> string" where
  "trialKey t = kindString (kind t) @ '':'' @ grapheme t @ '':'' @ intToString (repeatIndex t)"

text \<open>
  The seed of the screen: \<open>seed = (seed * 31 + runId.charCodeAt(i)) >>> 0\<close> over the
  characters of the run identifier, and the plan built from it with three repeats.
\<close>

definition runIdSeed :: "string \<Rightarrow> nat" where
  "runIdSeed runId = foldl (\<lambda>seed c. (seed * 31 + of_char c) mod 4294967296) 0 runId"

definition screenTrials :: "string \<Rightarrow> nat \<Rightarrow> PickerTrial list" where
  "screenTrials runId now =
     buildPickerTrials DEFAULT_GRAPHEMES DEFAULT_WEEKDAYS 3 (Some (runIdSeed runId)) now"

definition canNext :: "bool \<Rightarrow> string \<Rightarrow> bool" where
  "canNext noColor currentHex = (if noColor then True else hexToRgbSafe currentHex \<noteq> None)"

text \<open>The response that \<open>onNext\<close> builds for the current trial.\<close>

definition newResponse :: "PickerTrial \<Rightarrow> int \<Rightarrow> int \<Rightarrow> bool \<Rightarrow> string \<Rightarrow> PickerResponse" where
  "newResponse current idx now noColor currentHex =
     (let rgb = (if noColor then None else hexToRgbSafe currentHex)
      in \<lparr>grapheme = grapheme current, kind = kind current, repeatIndex = repeatIndex current,
          trialIndex = idx, atMs = now, isNoColor = noColor,
          rgb = rgb,
          hex = (if rgb \<noteq> None then Some (normalizeHex currentHex) else None)\<rparr>)"

text \<open>
  \<open>onNext\<close>, up to the optimistic update of the payload. The early returns (no payload,
  no current trial, no valid colour, a save in progress) leave the payload as it is and
  are the value \<open>None\<close>; otherwise the result is the next payload. Saving and navigation
  follow and do not change the payload.
\<close>

definition onNext ::
  "BatteryRunPayload option \<Rightarrow> PickerTrial option \<Rightarrow> int \<Rightarrow> int \<Rightarrow> bool \<Rightarrow> string \<Rightarrow> bool
     \<Rightarrow> BatteryRunPayload option" where
  "onNext payload current idx now noColor currentHex busy =
     (case payload of
        None \<Rightarrow> None
      | Some p \<Rightarrow>
         (case current of
            None \<Rightarrow> None
          | Some cur \<Rightarrow>
              if \<not> canNext noColor currentHex then None
              else if busy then None
              else
                let resp = newResponse cur idx now noColor currentHex;
                    k = trialKey cur;
                    prev = pickerResponses p;
                    filtered = filter (\<lambda>r. trialKey r \<noteq> k) prev
                in Some (p\<lparr>pickerResponses := filtered @ [resp]\<rparr>)))"

section \<open>The congruency screen\<close>

text \<open>
  \<open>buildCanonicalMap\<close>: one step of its loop over the picker responses, with the map in
  insertion order.
\<close>

definition hexText :: "PickerResponse \<Rightarrow> string" where
  "hexText r = trim (case hex r of None \<Rightarrow> [] | Some h \<Rightarrow> h)"

definition canonicalStep :: "(string \<times> string) list \<Rightarrow> PickerResponse \<Rightarrow> (string \<times> string) list" where
  "canonicalStep m r =
     (if kind r \<noteq> Grapheme then m
      else if isNoColor r then m
      else if hexText r = [] then m
      else if map_of m (grapheme r) = None then AList.update (grapheme r) (toLowerCase (hexText r)) m
      else m)"

definition buildCanonicalMap :: "BatteryRunPayload \<Rightarrow> (string \<times> string) list" where
  "buildCanonicalMap payload = foldl canonicalStep [] (pickerResponses payload)"

text \<open>
  The responses that \<open>buildCanonicalMap\<close> looks at, and the canonical colour in the words of
  the specification: the hex of the first response for the stimulus that is not
  "no colour" and has a hex.
\<close>

definition hasCanonicalHex :: "PickerResponse \<Rightarrow> bool" where
  "hasCanonicalHex r = (kind r = Grapheme \<and> \<not> isNoColor r \<and> hexText r \<noteq> [])"

definition specCanonicalColor :: "PickerResponse list \<Rightarrow> string \<Rightarrow> string option" where
  "specCanonicalColor rs g =
     (case filter (\<lambda>r. grapheme r = g \<and> \<not> isNoColor r \<and> hex r \<noteq> None) rs of
        [] \<Rightarrow> None
      | r # _ \<Rightarrow> hex r)"


text \<open>\<open>Array.from(new Set(xs))\<close>: the first occurrence of every element, in order.\<close>

definition arrayFromSet :: "'a list \<Rightarrow> 'a list" where
  "arrayFromSet xs = foldl (\<lambda>acc x. if x \<in> set acc then acc else acc @ [x]) [] xs"








section \<open>SynesthesiaBattery: colour distance, congruency trials and scores\<close>

subsection \<open>sRGB to Lab, and the distance\<close>

record Xyz =
  xyz_x :: real
  xyz_y :: real
  xyz_z :: real

record Lab =
  lab_L :: real
  lab_a :: real
  lab_b :: real

text \<open>\<open>c <= 0.04045 ? c / 12.92 : Math.pow((c + 0.055) / 1.055, 2.4)\<close>\<close>

definition srgbLinear :: "real \<Rightarrow> real" where
  "srgbLinear c = (if c \<le> 0.04045 then c / 12.92 else ((c + 0.055) / 1.055) powr 2.4)"

definition rgbToXyz :: "Rgb \<Rightarrow> Xyz" where
  "rgbToXyz c =
     (let r = srgbLinear (rgb_r c / 255);
          g = srgbLinear (rgb_g c / 255);
          b = srgbLinear (rgb_b c / 255);
          x = r * 0.4124 + g * 0.3576 + b * 0.1805;
          y = r * 0.2126 + g * 0.7152 + b * 0.0722;
          z = r * 0.0193 + g * 0.1192 + b * 0.9505
      in \<lparr>xyz_x = x * 100, xyz_y = y * 100, xyz_z = z * 100\<rparr>)"

text \<open>\<open>t > 0.008856 ? Math.cbrt(t) : 7.787 * t + 16 / 116\<close>\<close>

definition labF :: "real \<Rightarrow> real" where
  "labF t = (if t > 0.008856 then root 3 t else 7.787 * t + 16 / 116)"

definition xyzToLab :: "real \<Rightarrow> real \<Rightarrow> real \<Rightarrow> Lab" where
  "xyzToLab x y z =
     (let refX = 95.047; refY = 100.0; refZ = 108.883;
          fx = labF (x / refX); fy = labF (y / refY); fz = labF (z / refZ)
      in \<lparr>lab_L = 116 * fy - 16, lab_a = 500 * (fx - fy), lab_b = 200 * (fy - fz)\<rparr>)"

definition rgbToLab :: "Rgb \<Rightarrow> Lab" where
  "rgbToLab c = (let xyz = rgbToXyz c in xyzToLab (xyz_x xyz) (xyz_y xyz) (xyz_z xyz))"

definition deltaE76 :: "Lab \<Rightarrow> Lab \<Rightarrow> real" where
  "deltaE76 a b =
     (let dL = lab_L a - lab_L b; da = lab_a a - lab_a b; db = lab_b a - lab_b b
      in sqrt (dL * dL + da * da + db * db))"

subsection \<open>The run and its responses\<close>

text \<open>
  The types of \<open>SynesthesiaBattery.ts\<close>, with the fields that its trial builder and its
  scorer read (\<open>hsv\<close> and \<open>gray\<close> of a response and the trial lists and indices of the
  run are carried along by the source and never looked at).
\<close>

record BatteryPickerResponse =
  pr_trialId :: string
  pr_grapheme :: string
  pr_repeatIndex :: int
  pr_isNoColor :: bool
  pr_rgb :: "Rgb option"
  pr_rtMs :: real
  pr_ts :: real

record CongruencyTrial =
  ct_id :: string
  ct_grapheme :: string
  ct_shownRgb :: Rgb
  ct_isCongruent :: bool

record BatteryCongruencyResponse =
  cr_trialId :: string
  cr_grapheme :: string
  cr_answeredMatched :: bool
  cr_correct :: bool
  cr_rtMs :: real
  cr_ts :: real

record BatteryRun =
  run_runId :: string
  run_pickerResponses :: "BatteryPickerResponse list"
  run_congruencyResponses :: "BatteryCongruencyResponse list"
  run_createdAt :: real

subsection \<open>Congruency trials from the picker responses\<close>

text \<open>
  \<open>Math.random()\<close> is a stream \<open>rnd\<close> of numbers: the call number \<open>p\<close> of a computation
  returns \<open>rnd p\<close>, and every function that draws returns the number of the next call.
  The contract of \<open>Math.random\<close> is \<open>0 \<le> rnd p < 1\<close>. The fractional hexadecimal digits
  \<open>Math.random().toString(16).slice(2)\<close> in a trial id are \<open>suffix\<close> of the number drawn.
\<close>

definition unitInterval :: "(nat \<Rightarrow> real) \<Rightarrow> bool" where
  "unitInterval rnd = (\<forall>p. 0 \<le> rnd p \<and> rnd p < 1)"

definition lastColorStep ::
  "(string \<times> Rgb) list \<Rightarrow> BatteryPickerResponse \<Rightarrow> (string \<times> Rgb) list" where
  "lastColorStep m resp =
     (case pr_rgb resp of
        Some c \<Rightarrow> if \<not> pr_isNoColor resp then AList.update (pr_grapheme resp) c m else m
      | None \<Rightarrow> m)"

definition lastColorByG :: "BatteryRun \<Rightarrow> (string \<times> Rgb) list" where
  "lastColorByG run = foldl lastColorStep [] (run_pickerResponses run)"

text \<open>The loop \<open>for (k = 0; k < 20; k++)\<close> of \<open>pickDifferentColor\<close>, with \<open>n\<close> rounds left.\<close>

primrec pickLoop :: "(nat \<Rightarrow> real) \<Rightarrow> Rgb list \<Rightarrow> Rgb \<Rightarrow> nat \<Rightarrow> nat \<Rightarrow> Rgb \<times> nat" where
  "pickLoop rnd all target 0 p = (all ! 0, p)"
| "pickLoop rnd all target (Suc n) p =
     (let c = all ! nat \<lfloor>rnd p * real (length all)\<rfloor>
      in if \<not> (rgb_r c = rgb_r target \<and> rgb_g c = rgb_g target \<and> rgb_b c = rgb_b target)
         then (c, p + 1)
         else pickLoop rnd all target n (p + 1))"

definition pickDifferentColor :: "(nat \<Rightarrow> real) \<Rightarrow> Rgb list \<Rightarrow> Rgb \<Rightarrow> nat \<Rightarrow> Rgb \<times> nat" where
  "pickDifferentColor rnd all target p =
     (if length all \<le> 1 then (target, p) else pickLoop rnd all target 20 p)"

primrec shuffleInPlace_loop :: "(nat \<Rightarrow> real) \<Rightarrow> 'a list \<Rightarrow> nat \<Rightarrow> nat \<Rightarrow> 'a list" where
  "shuffleInPlace_loop rnd arr p 0 = arr"
| "shuffleInPlace_loop rnd arr p (Suc i') =
     (let i = Suc i';
          j = nat \<lfloor>rnd p * real (i + 1)\<rfloor>
      in shuffleInPlace_loop rnd (arr[i := arr ! j, j := arr ! i]) (p + 1) i')"

definition shuffleInPlace :: "(nat \<Rightarrow> real) \<Rightarrow> 'a list \<Rightarrow> nat \<Rightarrow> 'a list" where
  "shuffleInPlace rnd arr p = shuffleInPlace_loop rnd arr p (length arr - 1)"

text \<open>One round of the inner loop: a congruent trial, then an incongruent one.\<close>

definition trialPair ::
  "(nat \<Rightarrow> real) \<Rightarrow> (real \<Rightarrow> string) \<Rightarrow> Rgb list \<Rightarrow> string \<Rightarrow> Rgb
     \<Rightarrow> CongruencyTrial list \<times> nat \<Rightarrow> nat \<Rightarrow> CongruencyTrial list \<times> nat" where
  "trialPair rnd suffix colors g target st i =
     (let trials = fst st; p = snd st;
          congruent = \<lparr>ct_id = ''c_'' @ g @ ''_'' @ natToString 10 i @ ''_'' @ suffix (rnd p),
                       ct_grapheme = g, ct_shownRgb = target, ct_isCongruent = True\<rparr>;
          picked = pickDifferentColor rnd colors target (p + 1);
          other = fst picked; p' = snd picked;
          incongruent = \<lparr>ct_id = ''i_'' @ g @ ''_'' @ natToString 10 i @ ''_'' @ suffix (rnd p'),
                         ct_grapheme = g, ct_shownRgb = other, ct_isCongruent = False\<rparr>
      in (trials @ [congruent, incongruent], p' + 1))"

text \<open>
  The outer loop reads \<open>lastColorByG.get(g)!\<close> for a key \<open>g\<close> of the map, so the lookup
  always finds a colour; the other branch is never taken.
\<close>

definition trialsOfGrapheme ::
  "(nat \<Rightarrow> real) \<Rightarrow> (real \<Rightarrow> string) \<Rightarrow> (string \<times> Rgb) list \<Rightarrow> Rgb list \<Rightarrow> nat
     \<Rightarrow> CongruencyTrial list \<times> nat \<Rightarrow> string \<Rightarrow> CongruencyTrial list \<times> nat" where
  "trialsOfGrapheme rnd suffix m colors perGrapheme st g =
     (case map_of m g of
        None \<Rightarrow> st
      | Some target \<Rightarrow> foldl (trialPair rnd suffix colors g target) st [0..<perGrapheme])"

definition buildCongruencyTrialsFromPicker ::
  "(nat \<Rightarrow> real) \<Rightarrow> (real \<Rightarrow> string) \<Rightarrow> BatteryRun \<Rightarrow> nat \<Rightarrow> CongruencyTrial list" where
  "buildCongruencyTrialsFromPicker rnd suffix run perGrapheme =
     (let m = lastColorByG run;
          graphemes = map fst m;
          colors = List.map_filter (map_of m) graphemes;
          built = foldl (trialsOfGrapheme rnd suffix m colors perGrapheme) ([], 0) graphemes
      in shuffleInPlace rnd (fst built) (snd built))"

text \<open>A trial that shows the colour which the colour map holds for its own grapheme.\<close>

definition showsOwnColour :: "(string \<times> Rgb) list \<Rightarrow> CongruencyTrial \<Rightarrow> bool" where
  "showsOwnColour m t = (map_of m (ct_grapheme t) = Some (ct_shownRgb t))"

subsection \<open>Scoring\<close>

text \<open>
  A score is a JavaScript number that a division produced: \<open>None\<close> stands for a value
  that is not a finite number.
\<close>

record PickerScoreRow =
  row_grapheme :: string
  row_repeats :: "Rgb option list"
  row_meanDeltaE :: "real option"

record BatteryResults =
  pickerScore :: "real option"
  pickerRows :: "PickerScoreRow list"
  congruencyAccuracyPct :: "real option"
  congruencyMeanRtSec :: "real option"

definition js_add :: "real option \<Rightarrow> real option \<Rightarrow> real option" where
  "js_add a b = (case a of None \<Rightarrow> None | Some x \<Rightarrow> (case b of None \<Rightarrow> None | Some y \<Rightarrow> Some (x + y)))"

text \<open>\<open>if (!byG.has(g)) byG.set(g, []); byG.get(g)!.push(r)\<close>\<close>

definition groupStep ::
  "(string \<times> BatteryPickerResponse list) list \<Rightarrow> BatteryPickerResponse
     \<Rightarrow> (string \<times> BatteryPickerResponse list) list" where
  "groupStep byG r =
     (let g = pr_grapheme r;
          byG' = (if map_of byG g = None then AList.update g [] byG else byG)
      in AList.update g ((case map_of byG' g of Some rs \<Rightarrow> rs | None \<Rightarrow> []) @ [r]) byG')"

definition slotStep :: "int \<Rightarrow> Rgb option list \<Rightarrow> BatteryPickerResponse \<Rightarrow> Rgb option list" where
  "slotStep repeats slots r =
     (if pr_isNoColor r \<or> pr_rgb r = None then slots
      else if pr_repeatIndex r \<ge> 0 \<and> pr_repeatIndex r < repeats
           then slots[nat (pr_repeatIndex r) := pr_rgb r]
           else slots)"

definition buildSlots :: "int \<Rightarrow> BatteryPickerResponse list \<Rightarrow> Rgb option list" where
  "buildSlots repeats rs = foldl (slotStep repeats) (replicate (nat repeats) None) rs"

definition pairwiseDeltas :: "Rgb list \<Rightarrow> real list" where
  "pairwiseDeltas colors =
     concat (map (\<lambda>i. map (\<lambda>j. deltaE76 (rgbToLab (colors ! i)) (rgbToLab (colors ! j)))
                          [i + 1..<length colors])
                 [0..<length colors])"

text \<open>The body of the loop over the groups: one row of the table.\<close>

definition pickerRow :: "int \<Rightarrow> string \<times> BatteryPickerResponse list \<Rightarrow> PickerScoreRow" where
  "pickerRow repeats entry =
     (let slots = buildSlots repeats (snd entry);
          deltas = pairwiseDeltas (List.map_filter (\<lambda>x. x) slots);
          mean = (if length deltas \<noteq> 0
                  then js_div (foldl (\<lambda>a b. a + b) 0 deltas) (real (length deltas))
                  else Some 0)
      in \<lparr>row_grapheme = fst entry, row_repeats = slots, row_meanDeltaE = mean\<rparr>)"

text \<open>
  \<open>rows.sort((a, b) => a.grapheme.localeCompare(b.grapheme, "en"))\<close>: a stable sort; the
  collation of the platform is the parameter \<open>localeCompare\<close>.
\<close>

primrec insertRow ::
  "(string \<Rightarrow> string \<Rightarrow> int) \<Rightarrow> PickerScoreRow \<Rightarrow> PickerScoreRow list \<Rightarrow> PickerScoreRow list" where
  "insertRow localeCompare x [] = [x]"
| "insertRow localeCompare x (y # ys) =
     (if localeCompare (row_grapheme x) (row_grapheme y) \<le> 0 then x # y # ys
      else y # insertRow localeCompare x ys)"

definition sortRows :: "(string \<Rightarrow> string \<Rightarrow> int) \<Rightarrow> PickerScoreRow list \<Rightarrow> PickerScoreRow list" where
  "sortRows localeCompare rows = foldr (insertRow localeCompare) rows []"

definition scoreBattery :: "(string \<Rightarrow> string \<Rightarrow> int) \<Rightarrow> BatteryRun \<Rightarrow> int \<Rightarrow> BatteryResults" where
  "scoreBattery localeCompare run repeats =
     (let byG = foldl groupStep [] (run_pickerResponses run);
          rows = map (pickerRow repeats) byG;
          pickerScore =
            (if length rows \<noteq> 0
             then (case foldl (\<lambda>a r. js_add a (row_meanDeltaE r)) (Some 0) rows of
                     None \<Rightarrow> None
                   | Some acc \<Rightarrow> js_div acc (real (length rows)))
             else Some 0);
          congr = run_congruencyResponses run;
          correctCount = length (filter cr_correct congr);
          congruencyAccuracyPct =
            (if length congr \<noteq> 0
             then map_option (\<lambda>q. q * 100) (js_div (real correctCount) (real (length congr)))
             else Some 0);
          congruencyMeanRtSec =
            (if length congr \<noteq> 0
             then map_option (\<lambda>q. q / 1000)
                    (js_div (foldl (\<lambda>a c. a + cr_rtMs c) 0 congr) (real (length congr)))
             else Some 0)
      in \<lparr>pickerScore = pickerScore, pickerRows = sortRows localeCompare rows,
          congruencyAccuracyPct = congruencyAccuracyPct,
          congruencyMeanRtSec = congruencyMeanRtSec\<rparr>)"

subsection \<open>The scores in the words of the specification\<close>

text \<open>
  All pairs of positions \<open>i < j\<close> below \<open>n\<close>; the arithmetic mean of the distances of all
  pairs of colours, 0 for at most one colour; and the content of slot \<open>i\<close> of stimulus
  \<open>g\<close>: the colour of the response for \<open>g\<close> with that repeat index that has a colour
  (the last one in response order, should there be several), null without one.
\<close>

definition allPairs :: "nat \<Rightarrow> (nat \<times> nat) list" where
  "allPairs n = filter (\<lambda>(i, j). i < j) (List.product [0..<n] [0..<n])"

definition specMeanDeltaE :: "Rgb list \<Rightarrow> real" where
  "specMeanDeltaE cs =
     (if length cs \<le> 1 then 0
      else sum_list (map (\<lambda>(i, j). deltaE76 (rgbToLab (cs ! i)) (rgbToLab (cs ! j))) (allPairs (length cs)))
             / real (length (allPairs (length cs))))"

definition specSlot :: "BatteryPickerResponse list \<Rightarrow> string \<Rightarrow> int \<Rightarrow> Rgb option" where
  "specSlot rs g i =
     (case filter (\<lambda>r. pr_grapheme r = g \<and> pr_repeatIndex r = i \<and> \<not> pr_isNoColor r \<and> pr_rgb r \<noteq> None) rs of
        [] \<Rightarrow> None
      | x # xs \<Rightarrow> pr_rgb (last (x # xs)))"

section \<open>Sample data\<close>

definition sampleTrial :: PickerTrial where
  "sampleTrial = \<lparr>grapheme = ''A'', kind = Grapheme, repeatIndex = 0\<rparr>"

definition samplePayload :: BatteryRunPayload where
  "samplePayload =
     \<lparr>version = 1, createdAtMs = 0, payload_repeats = 3,
      pickerPlan = \<lparr>plan_graphemes = DEFAULT_GRAPHEMES, plan_weekdays = DEFAULT_WEEKDAYS\<rparr>,
      pickerResponses =
        [\<lparr>grapheme = ''A'', kind = Grapheme, repeatIndex = 0, trialIndex = 0, atMs = 50,
          isNoColor = False, rgb = Some \<lparr>rgb_r = 0, rgb_g = 0, rgb_b = 255\<rparr>, hex = Some ''#0000ff''\<rparr>],
      congruencyResponses = []\<rparr>"

definition coloured :: "string \<Rightarrow> Kind \<Rightarrow> int \<Rightarrow> string \<Rightarrow> PickerResponse" where
  "coloured g k i h =
     \<lparr>grapheme = g, kind = k, repeatIndex = i, trialIndex = i, atMs = 0, isNoColor = False,
      rgb = hexToRgbSafe h, hex = Some h\<rparr>"

definition payloadOf :: "PickerResponse list \<Rightarrow> BatteryRunPayload" where
  "payloadOf rs = samplePayload\<lparr>pickerResponses := rs\<rparr>"


definition answered :: "bool \<Rightarrow> real \<Rightarrow> BatteryCongruencyResponse" where
  "answered ok rt =
     \<lparr>cr_trialId = ''t'', cr_grapheme = ''A'', cr_answeredMatched = ok, cr_correct = ok,
      cr_rtMs = rt, cr_ts = 0\<rparr>"

definition runOf :: "BatteryPickerResponse list \<Rightarrow> BatteryCongruencyResponse list \<Rightarrow> BatteryRun" where
  "runOf prs crs =
     \<lparr>run_runId = ''run'', run_pickerResponses = prs, run_congruencyResponses = crs, run_createdAt = 0\<rparr>"

text \<open>A comparison to sort sample rows with: by the code of the first character.\<close>

definition byFirstChar :: "string \<Rightarrow> string \<Rightarrow> int" where
  "byFirstChar a b =
     int (case a of [] \<Rightarrow> 0 | c # _ \<Rightarrow> of_char c) - int (case b of [] \<Rightarrow> 0 | c # _ \<Rightarrow> of_char c)"

definition red :: Rgb where
  "red = \<lparr>rgb_r = 255, rgb_g = 0, rgb_b = 0\<rparr>"

definition blue :: Rgb where
  "blue = \<lparr>rgb_r = 0, rgb_g = 0, rgb_b = 255\<rparr>"

definition picked :: "string \<Rightarrow> int \<Rightarrow> Rgb \<Rightarrow> BatteryPickerResponse" where
  "picked g i c =
     \<lparr>pr_trialId = ''t'', pr_grapheme = g, pr_repeatIndex = i, pr_isNoColor = False,
      pr_rgb = Some c, pr_rtMs = 0, pr_ts = 0\<rparr>"

definition noColour :: "string \<Rightarrow> int \<Rightarrow> BatteryPickerResponse" where
  "noColour g i =
     \<lparr>pr_trialId = ''t'', pr_grapheme = g, pr_repeatIndex = i, pr_isNoColor = True,
      pr_rgb = None, pr_rtMs = 0, pr_ts = 0\<rparr>"

section \<open>Hexadecimal colours: digits, bytes and the two conversions\<close>

lemma lt16_cases: "d < 16 \<Longrightarrow> d \<in> {0::nat, 1, 2, 3, 4, 5, 6, 7, 8, 9, 10, 11, 12, 13, 14, 15}"
  by (simp only: insert_iff empty_iff) arith

lemma hexVal_digitChar: "d < 16 \<Longrightarrow> hexVal (digitChar d) = d"
  by (drule lt16_cases) (auto simp: hexVal_def digitChar_def)

lemma digitChar_hexVal: "isLowerHex c \<Longrightarrow> digitChar (hexVal c) = c"
  by (simp add: isLowerHex_def, elim disjE) (simp_all add: hexVal_def digitChar_def)

lemma isLowerHex_digitChar: "d < 16 \<Longrightarrow> isLowerHex (digitChar d)"
  by (drule lt16_cases) (auto simp: isLowerHex_def digitChar_def)

lemma hexVal_lt_16: "hexVal c < 16"
  unfolding hexVal_def by (simp split: if_splits) arith

lemma lowerChar_isLowerHex: "isLowerHex c \<Longrightarrow> lowerChar c = c"
  by (simp add: isLowerHex_def, elim disjE) (simp_all add: lowerChar_def)

lemma isLowerHex_lowerChar: "isHexDigit c \<Longrightarrow> isLowerHex (lowerChar c)"
  by (simp add: isHexDigit_def isLowerHex_def isUpperHex_def, elim disjE) (simp_all add: lowerChar_def)

lemma natToString_small: "n < 16 \<Longrightarrow> natToString 16 n = [digitChar n]"
  by (subst natToString.simps) simp

lemma natToString16_byte:
  assumes "n < 256"
  shows "padStart2 (natToString 16 n) = [digitChar (n div 16), digitChar (n mod 16)]"
proof (cases "n < 16")
  case True
  then show ?thesis by (simp add: natToString_small padStart2_def digitChar_def)
next
  case False
  from assms have "n div 16 < 16" by simp
  then have "natToString 16 (n div 16) = [digitChar (n div 16)]" by (rule natToString_small)
  with False have "natToString 16 n = [digitChar (n div 16), digitChar (n mod 16)]"
    by (subst natToString.simps) simp
  then show ?thesis by (simp add: padStart2_def)
qed

lemma parseInt16_two:
  "isHexDigit c \<Longrightarrow> isHexDigit d \<Longrightarrow> parseInt16 [c, d] = Some (hexVal c * 16 + hexVal d)"
  by (simp add: parseInt16_def)

lemma toLowerCase_lowerHex: "list_all isLowerHex s \<Longrightarrow> toLowerCase s = s"
  by (induction s) (simp_all add: toLowerCase_def lowerChar_isLowerHex)

lemma lowerChar_hash: "lowerChar CHR ''#'' = CHR ''#''"
  by (simp add: lowerChar_def)

lemma not_ws_hex: "isHexDigit c \<Longrightarrow> \<not> isWhitespace c"
  by (simp add: isHexDigit_def isLowerHex_def isUpperHex_def, elim disjE) (simp_all add: isWhitespace_def)

lemma not_ws_hash: "\<not> isWhitespace CHR ''#''"
  by (simp add: isWhitespace_def)

lemma dropWhile_hd: "s \<noteq> [] \<Longrightarrow> \<not> P (hd s) \<Longrightarrow> dropWhile P s = s"
  by (cases s) simp_all

lemma trim_no_ws: "s \<noteq> [] \<Longrightarrow> \<not> isWhitespace (hd s) \<Longrightarrow> \<not> isWhitespace (last s) \<Longrightarrow> trim s = s"
  by (simp add: trim_def dropWhile_hd hd_rev)

lemma list6: "length ds = 6 \<Longrightarrow> \<exists>a b c d e f. ds = [a, b, c, d, e, f]"
  by (auto simp: length_Suc_conv eval_nat_numeral)

lemma js_round_of_int: "js_round (of_int i) = i"
  by (simp add: js_round_def)

lemma js_round_of_nat: "js_round (real n) = int n"
  using js_round_of_int [of "int n"] by simp

lemma isHashHex6_shape:
  "isHashHex6 h \<longleftrightarrow> (\<exists>a b c d e f. h = [CHR ''#'', a, b, c, d, e, f] \<and> isLowerHex a \<and> isLowerHex b \<and> isLowerHex c \<and> isLowerHex d \<and> isLowerHex e \<and> isLowerHex f)"
  by (cases h) (auto simp: isHashHex6_def dest!: list6)

lemma byte_hex: "isLowerHex a \<Longrightarrow> isLowerHex b \<Longrightarrow>
   padStart2 (natToString 16 (hexVal a * 16 + hexVal b)) = [a, b]"
  using hexVal_lt_16 [of a] hexVal_lt_16 [of b]
  by (subst natToString16_byte) (simp_all add: digitChar_hexVal)

lemma hexToRgbSafe_roundtrip:
  assumes "hexToRgbSafe h = Some c"
  shows "rgbToHex (rgb_r c) (rgb_g c) (rgb_b c) = normalizeHex h"
proof -
  from assms have hh: "isHashHex6 (normalizeHex h)"
    by (auto simp: hexToRgbSafe_def Let_def split: if_splits)
  then obtain a b c' d e f where
    n: "normalizeHex h = [CHR ''#'', a, b, c', d, e, f]"
    and l: "isLowerHex a" "isLowerHex b" "isLowerHex c'" "isLowerHex d" "isLowerHex e" "isLowerHex f"
    unfolding isHashHex6_shape by blast
  from l have hd: "isHexDigit a" "isHexDigit b" "isHexDigit c'" "isHexDigit d" "isHexDigit e" "isHexDigit f"
    by (simp_all add: isHexDigit_def)
  from assms hh n have c: "c = \<lparr>rgb_r = real (hexVal a * 16 + hexVal b),
      rgb_g = real (hexVal c' * 16 + hexVal d), rgb_b = real (hexVal e * 16 + hexVal f)\<rparr>"
    by (simp add: hexToRgbSafe_def slice_def parseInt16_two hd)
  have b: "hexVal x * 16 + hexVal y \<le> 255" for x y
    using hexVal_lt_16 [of x] hexVal_lt_16 [of y] by simp
  show ?thesis
    unfolding n c rgbToHex_def Let_def
    by (simp add: js_round_of_nat clamp_def b byte_hex l toLowerCase_def lowerChar_hash lowerChar_isLowerHex
         del: of_nat_add of_nat_mult)
qed




lemma digit_pair_lower:
  "n < 256 \<Longrightarrow> isLowerHex (digitChar (n div 16)) \<and> isLowerHex (digitChar (n mod 16))"
  by (simp add: isLowerHex_digitChar)

lemma toLowerCase_hashHex6: "isHashHex6 h \<Longrightarrow> toLowerCase h = h"
  unfolding isHashHex6_shape
  by (elim exE conjE) (simp add: toLowerCase_def lowerChar_hash lowerChar_isLowerHex)

lemma rgbToHex_shape:
  assumes "0 \<le> r" "r \<le> 255" "0 \<le> g" "g \<le> 255" "0 \<le> b" "b \<le> 255"
  shows "rgbToHex (of_int r) (of_int g) (of_int b) =
     [CHR ''#'', digitChar (nat r div 16), digitChar (nat r mod 16),
      digitChar (nat g div 16), digitChar (nat g mod 16),
      digitChar (nat b div 16), digitChar (nat b mod 16)]"
    (is "_ = ?h")
proof -
  from assms have n: "nat r < 256" "nat g < 256" "nat b < 256" by simp_all
  have hh: "isHashHex6 ?h"
    unfolding isHashHex6_shape
    using digit_pair_lower [OF n(1)] digit_pair_lower [OF n(2)] digit_pair_lower [OF n(3)] by simp
  have c: "clamp r 0 255 = r" "clamp g 0 255 = g" "clamp b 0 255 = b"
    using assms by (simp_all add: clamp_def)
  have "rgbToHex (of_int r) (of_int g) (of_int b) = toLowerCase ?h"
    by (simp add: rgbToHex_def js_round_of_int c natToString16_byte n)
  with hh show ?thesis by (simp add: toLowerCase_hashHex6)
qed


lemma trim_hashHex6: "isHashHex6 h \<Longrightarrow> trim h = h"
  unfolding isHashHex6_shape
  by (elim exE conjE) (simp add: trim_no_ws not_ws_hash not_ws_hex isHexDigit_def)

lemma normalizeHex_hashHex6: "isHashHex6 h \<Longrightarrow> normalizeHex h = h"
proof -
  assume hh: "isHashHex6 h"
  then have "h \<noteq> []" "hd h = CHR ''#''" by (auto simp: isHashHex6_def split: list.splits)
  with hh show ?thesis
    by (simp add: normalizeHex_def trim_hashHex6 toLowerCase_hashHex6)
qed

lemma parseInt16_digit_pair:
  "n < 256 \<Longrightarrow> parseInt16 [digitChar (n div 16), digitChar (n mod 16)] = Some n"
  using digit_pair_lower [of n] by (simp add: parseInt16_two isHexDigit_def hexVal_digitChar)

lemma hexToRgbSafe_rgbToHex:
  assumes "0 \<le> r" "r \<le> 255" "0 \<le> g" "g \<le> 255" "0 \<le> b" "b \<le> 255"
  shows "hexToRgbSafe (rgbToHex (of_int r) (of_int g) (of_int b)) =
     Some \<lparr>rgb_r = of_int r, rgb_g = of_int g, rgb_b = of_int b\<rparr>"
proof -
  let ?h = "rgbToHex (of_int r) (of_int g) (of_int b)"
  note sh = rgbToHex_shape [OF assms]
  from assms have n: "nat r < 256" "nat g < 256" "nat b < 256" by simp_all
  have hh: "isHashHex6 ?h"
    unfolding sh isHashHex6_shape
    using digit_pair_lower [OF n(1)] digit_pair_lower [OF n(2)] digit_pair_lower [OF n(3)] by simp
  have "hexToRgbSafe ?h = (case (parseInt16 (slice ?h 1 3), parseInt16 (slice ?h 3 5), parseInt16 (slice ?h 5 7)) of
                (Some r, Some g, Some b) \<Rightarrow> Some \<lparr>rgb_r = real r, rgb_g = real g, rgb_b = real b\<rparr>
              | _ \<Rightarrow> None)"
    using hh by (simp add: hexToRgbSafe_def normalizeHex_hashHex6 Let_def)
  also have "\<dots> = Some \<lparr>rgb_r = real (nat r), rgb_g = real (nat g), rgb_b = real (nat b)\<rparr>"
    unfolding sh by (simp add: slice_def parseInt16_digit_pair n)
  finally show ?thesis using assms by simp
qed

lemma hexToRgbSafe_None_iff: "hexToRgbSafe h = None \<longleftrightarrow> \<not> isHashHex6 (normalizeHex h)"
proof (cases "isHashHex6 (normalizeHex h)")
  case False
  then show ?thesis by (simp add: hexToRgbSafe_def)
next
  case True
  then obtain a b c d e f where
    n: "normalizeHex h = [CHR ''#'', a, b, c, d, e, f]"
    and l: "isLowerHex a" "isLowerHex b" "isLowerHex c" "isLowerHex d" "isLowerHex e" "isLowerHex f"
    unfolding isHashHex6_shape by blast
  with True show ?thesis
    by (simp add: hexToRgbSafe_def slice_def parseInt16_two isHexDigit_def)
qed

lemma not_hash_hex: "isHexDigit c \<Longrightarrow> c \<noteq> CHR ''#''"
  by (simp add: isHexDigit_def isLowerHex_def isUpperHex_def, elim disjE) simp_all

lemma normalizeHex_bare:
  assumes "length ds = 6" "list_all isHexDigit ds"
  shows "normalizeHex ds = CHR ''#'' # toLowerCase ds"
proof -
  from assms(1) obtain a b c d e f where ds: "ds = [a, b, c, d, e, f]" by (auto dest: list6)
  from assms(2) have h: "isHexDigit a" "isHexDigit f" unfolding ds by simp_all
  have t: "trim ds = ds" unfolding ds using h by (simp add: trim_no_ws not_ws_hex)
  have "hd ds \<noteq> CHR ''#''" unfolding ds using h by (simp add: not_hash_hex)
  moreover have "ds \<noteq> []" unfolding ds by simp
  ultimately show ?thesis using assms t unfolding normalizeHex_def Let_def by simp
qed

lemma normalizeHex_hashed:
  assumes "length ds = 6" "list_all isHexDigit ds"
  shows "normalizeHex (CHR ''#'' # ds) = CHR ''#'' # toLowerCase ds"
proof -
  from assms(1) obtain a b c d e f where ds: "ds = [a, b, c, d, e, f]" by (auto dest: list6)
  from assms(2) have h: "isHexDigit f" unfolding ds by simp
  have "trim (CHR ''#'' # ds) = CHR ''#'' # ds" unfolding ds using h by (simp add: trim_no_ws not_ws_hex not_ws_hash)
  then show ?thesis unfolding normalizeHex_def Let_def by (simp add: toLowerCase_def lowerChar_hash)
qed

lemma isHashHex6_lowered:
  assumes "length ds = 6" "list_all isHexDigit ds"
  shows "isHashHex6 (CHR ''#'' # toLowerCase ds)"
  using assms by (simp add: isHashHex6_def toLowerCase_def list_all_iff isLowerHex_lowerChar)

text \<open>
  Claim C8. The two conversions of the colour wheel are inverse to each other:
  whenever \<open>hexToRgbSafe h\<close> yields a colour, \<open>rgbToHex\<close> of its channels is
  \<open>normalizeHex h\<close>; for six hexadecimal digits \<open>ds\<close>, bare or behind a \<open>#\<close>, that
  normal form is \<open>#\<close> followed by the lowercased digits and the conversion succeeds;
  for integer channels from 0 to 255, \<open>hexToRgbSafe (rgbToHex r g b)\<close> is exactly the
  colour \<open>(r, g, b)\<close>; and \<open>hexToRgbSafe\<close> answers null exactly for the inputs whose
  normal form does not match \<open>^#[0-9a-f]{6}$\<close>.
\<close>

theorem hex_rgb_round_trip:
  "(hexToRgbSafe h = Some c \<longrightarrow> rgbToHex (rgb_r c) (rgb_g c) (rgb_b c) = normalizeHex h)
   \<and> (length ds = 6 \<and> list_all isHexDigit ds \<longrightarrow>
        normalizeHex ds = CHR ''#'' # toLowerCase ds
        \<and> normalizeHex (CHR ''#'' # ds) = CHR ''#'' # toLowerCase ds
        \<and> hexToRgbSafe ds \<noteq> None \<and> hexToRgbSafe (CHR ''#'' # ds) \<noteq> None)
   \<and> (0 \<le> r \<and> r \<le> 255 \<and> 0 \<le> g \<and> g \<le> 255 \<and> 0 \<le> b \<and> b \<le> 255 \<longrightarrow>
        hexToRgbSafe (rgbToHex (of_int r) (of_int g) (of_int b))
          = Some \<lparr>rgb_r = of_int r, rgb_g = of_int g, rgb_b = of_int b\<rparr>)
   \<and> (hexToRgbSafe h' = None \<longleftrightarrow> \<not> isHashHex6 (normalizeHex h'))"
  by (simp add: hexToRgbSafe_roundtrip normalizeHex_bare normalizeHex_hashed hexToRgbSafe_rgbToHex
        hexToRgbSafe_None_iff isHashHex6_lowered)

lemmas hex_eval = hexToRgbSafe_def normalizeHex_def trim_def isWhitespace_def toLowerCase_def
  lowerChar_def isHashHex6_def isLowerHex_def isHexDigit_def isUpperHex_def parseInt16_def
  slice_def hexVal_def

theorem hex_rgb_round_trip_witness:
  "hexToRgbSafe ''#FF8000'' = Some \<lparr>rgb_r = 255, rgb_g = 128, rgb_b = 0\<rparr>
   \<and> rgbToHex 255 128 0 = normalizeHex ''#FF8000''
   \<and> length ''FF8000'' = 6 \<and> list_all isHexDigit ''FF8000''
   \<and> normalizeHex ''FF8000'' = ''#ff8000''
   \<and> hexToRgbSafe (rgbToHex 255 128 0) = Some \<lparr>rgb_r = 255, rgb_g = 128, rgb_b = 0\<rparr>
   \<and> \<not> isHashHex6 (normalizeHex ''12345'') \<and> hexToRgbSafe ''12345'' = None"
proof -
  let ?c = "\<lparr>rgb_r = 255, rgb_g = 128, rgb_b = 0\<rparr>"
  note t = hex_rgb_round_trip [of "''#FF8000''" ?c "''FF8000''" 255 128 0 "''12345''"]
  have a: "hexToRgbSafe ''#FF8000'' = Some ?c" by (simp add: hex_eval)
  have b: "length ''FF8000'' = 6 \<and> list_all isHexDigit ''FF8000''"
    by (simp add: isHexDigit_def isLowerHex_def isUpperHex_def)
  have c: "\<not> isHashHex6 (normalizeHex ''12345'')" by (simp add: hex_eval)
  have l: "toLowerCase ''FF8000'' = ''ff8000''" by (simp add: toLowerCase_def lowerChar_def)
  from t a have "rgbToHex 255 128 0 = normalizeHex ''#FF8000''" by simp
  moreover from t b l have "normalizeHex ''FF8000'' = ''#ff8000''" by simp
  moreover from t have "hexToRgbSafe (rgbToHex 255 128 0) = Some ?c" by simp
  moreover from t c have "hexToRgbSafe ''12345'' = None" by simp
  ultimately show ?thesis using a b c by simp
qed


section \<open>The picker screen: one response per trial identity\<close>

lemma digitChar_inj: "a < 16 \<Longrightarrow> b < 16 \<Longrightarrow> digitChar a = digitChar b \<Longrightarrow> a = b"
proof -
  have d: "distinct ''0123456789abcdef''" by simp
  assume "a < 16" "b < 16" "digitChar a = digitChar b"
  then show ?thesis
    using nth_eq_iff_index_eq [OF d, of a b] by (simp add: digitChar_def)
qed

lemma natToString_nonempty: "natToString radix n \<noteq> []"
  by (subst natToString.simps) simp

lemma natToString_digits:
  "radix \<le> 16 \<Longrightarrow> 2 \<le> radix \<Longrightarrow> list_all isLowerHex (natToString radix n)"
proof (induction radix n rule: natToString.induct)
  case (1 radix n)
  show ?case
  proof (cases "n < radix")
    case True
    with 1(2) have "n < 16" by simp
    with True show ?thesis by (subst natToString.simps) (simp add: isLowerHex_digitChar)
  next
    case False
    have "n mod radix < 16" using 1(2,3) by (meson less_le_trans mod_less_divisor pos2 order_less_le_trans)
    with False 1 show ?thesis
      by (subst natToString.simps) (simp add: isLowerHex_digitChar)
  qed
qed

lemma natToString_inj:
  "radix \<le> 16 \<Longrightarrow> 2 \<le> radix \<Longrightarrow> natToString radix n = natToString radix m \<Longrightarrow> n = m"
proof (induction radix n arbitrary: m rule: natToString.induct)
  case (1 radix n)
  have md: "k mod radix < 16" for k
    using 1(2,3) by (meson less_le_trans mod_less_divisor pos2 order_less_le_trans)
  show ?case
  proof (cases "n < radix")
    case n: True
    then have sn: "natToString radix n = [digitChar n]" by (subst natToString.simps) simp
    show ?thesis
    proof (cases "m < radix")
      case True
      then have "natToString radix m = [digitChar m]" by (subst natToString.simps) simp
      with sn 1(4) have "digitChar n = digitChar m" by simp
      with n True 1(2) show ?thesis by (auto intro: digitChar_inj)
    next
      case False
      with 1(3) have "natToString radix m = natToString radix (m div radix) @ [digitChar (m mod radix)]"
        by (subst natToString.simps) simp
      with sn 1(4) show ?thesis using natToString_nonempty [of radix "m div radix"] by auto
    qed
  next
    case n: False
    with 1(3) have sn: "natToString radix n = natToString radix (n div radix) @ [digitChar (n mod radix)]"
      by (subst natToString.simps) simp
    show ?thesis
    proof (cases "m < radix")
      case True
      then have "natToString radix m = [digitChar m]" by (subst natToString.simps) simp
      with sn 1(4) show ?thesis using natToString_nonempty [of radix "n div radix"] by auto
    next
      case False
      with 1(3) have "natToString radix m = natToString radix (m div radix) @ [digitChar (m mod radix)]"
        by (subst natToString.simps) simp
      with sn 1(4) have e: "natToString radix (n div radix) = natToString radix (m div radix)"
        and d: "digitChar (n mod radix) = digitChar (m mod radix)" by simp_all
      from n 1(3) have "\<not> (radix < 2 \<or> n < radix)" by simp
      from 1(1) [OF this 1(2,3) e] have "n div radix = m div radix" .
      moreover from d have "n mod radix = m mod radix" by (rule digitChar_inj [OF md md])
      ultimately show ?thesis by (metis div_mult_mod_eq)
    qed
  qed
qed

lemma isLowerHex_not_colon: "isLowerHex c \<Longrightarrow> c \<noteq> CHR '':'' \<and> c \<noteq> CHR ''-''"
  by (simp add: isLowerHex_def, elim disjE) simp_all

lemma natToString_no_colon: "CHR '':'' \<notin> set (natToString 10 n)" "CHR ''-'' \<notin> set (natToString 10 n)"
  using natToString_digits [of 10 n] isLowerHex_not_colon by (auto simp: list_all_iff)

lemma intToString_no_colon: "CHR '':'' \<notin> set (intToString i)"
  by (simp add: intToString_def natToString_no_colon)

lemma intToString_inj: "intToString i = intToString j \<Longrightarrow> i = j"
proof -
  assume e: "intToString i = intToString j"
  have h: "hd (natToString 10 n) \<noteq> CHR ''-''" for n
    using natToString_no_colon(2) [of n] natToString_nonempty [of 10 n] by (metis hd_in_set)
  show ?thesis
  proof (cases "i < 0"; cases "j < 0")
    assume "i < 0" "j < 0"
    with e have "nat (- i) = nat (- j)" by (auto simp: intToString_def dest: natToString_inj [rotated 2])
    with \<open>i < 0\<close> \<open>j < 0\<close> show ?thesis by simp
  next
    assume "i < 0" "\<not> j < 0"
    with e have "natToString 10 (nat j) = CHR ''-'' # natToString 10 (nat (- i))"
      by (simp add: intToString_def)
    with h [of "nat j"] show ?thesis by simp
  next
    assume "\<not> i < 0" "j < 0"
    with e have "natToString 10 (nat i) = CHR ''-'' # natToString 10 (nat (- j))"
      by (simp add: intToString_def)
    with h [of "nat i"] show ?thesis by simp
  next
    assume "\<not> i < 0" "\<not> j < 0"
    with e have "nat i = nat j" by (auto simp: intToString_def dest: natToString_inj [rotated 2])
    with \<open>\<not> i < 0\<close> \<open>\<not> j < 0\<close> show ?thesis by simp
  qed
qed

lemma kindString_no_colon: "CHR '':'' \<notin> set (kindString k)"
  by (cases k) (simp_all add: kindString_def)

lemma kindString_inj: "kindString k = kindString k' \<Longrightarrow> k = k'"
  by (cases k; cases k') (simp_all add: kindString_def)

lemma split_at_first:
  assumes "c \<notin> set xs" "c \<notin> set xs'" "xs @ c # ys = xs' @ c # ys'"
  shows "xs = xs' \<and> ys = ys'"
proof -
  have "takeWhile (\<lambda>y. y \<noteq> c) (xs @ c # ys) = xs" "takeWhile (\<lambda>y. y \<noteq> c) (xs' @ c # ys') = xs'"
    using assms(1,2) by (auto simp: takeWhile_tail)
  with assms(3) have "xs = xs'" by simp
  with assms(3) show ?thesis by simp
qed

lemma trialKey_eq_iff: "trialKey t = trialKey u \<longleftrightarrow> trialIdentity t = trialIdentity u"
proof
  assume e: "trialKey t = trialKey u"
  let ?s = "intToString (repeatIndex t)" and ?s' = "intToString (repeatIndex u)"
  from e have "kindString (kind t) @ CHR '':'' # (grapheme t @ CHR '':'' # ?s)
      = kindString (kind u) @ CHR '':'' # (grapheme u @ CHR '':'' # ?s')"
    by (simp add: trialKey_def)
  then have kr: "kindString (kind t) = kindString (kind u)
      \<and> grapheme t @ CHR '':'' # ?s = grapheme u @ CHR '':'' # ?s'"
    by (rule split_at_first [OF kindString_no_colon kindString_no_colon])
  then have k: "kindString (kind t) = kindString (kind u)"
    and r: "grapheme t @ CHR '':'' # ?s = grapheme u @ CHR '':'' # ?s'"
    by simp_all
  from r have "rev (grapheme t @ CHR '':'' # ?s) = rev (grapheme u @ CHR '':'' # ?s')" by simp
  then have "rev ?s @ CHR '':'' # rev (grapheme t) = rev ?s' @ CHR '':'' # rev (grapheme u)" by simp
  then have "rev ?s = rev ?s' \<and> rev (grapheme t) = rev (grapheme u)"
    by (intro split_at_first [where c = "CHR '':''"]) (simp_all add: intToString_no_colon)
  with k show "trialIdentity t = trialIdentity u"
    by (auto simp: trialIdentity_def dest: kindString_inj intToString_inj)
next
  assume "trialIdentity t = trialIdentity u"
  then show "trialKey t = trialKey u" by (simp add: trialIdentity_def trialKey_def)
qed


lemma trialIdentity_newResponse: "trialIdentity (newResponse cur i t nc h) = trialIdentity cur"
  by (simp add: newResponse_def trialIdentity_def Let_def)

lemma onNext_Some:
  "canNext nc h \<Longrightarrow>
   onNext (Some p) (Some cur) i t nc h False =
     Some (p\<lparr>pickerResponses :=
       filter (\<lambda>r. trialIdentity r \<noteq> trialIdentity cur) (pickerResponses p) @ [newResponse cur i t nc h]\<rparr>)"
  by (simp add: onNext_def Let_def trialKey_eq_iff)

lemma filter_replace:
  "f r = k \<Longrightarrow> filter (\<lambda>x. f x = k) (filter (\<lambda>x. f x \<noteq> k) xs @ [r]) = [r]"
  by (simp add: filter_empty_conv)

lemma distinct_replace:
  "distinct (map f xs) \<Longrightarrow> f r = k \<Longrightarrow> distinct (map f (filter (\<lambda>x. f x \<noteq> k) xs @ [r]))"
  by (auto simp: distinct_map_filter)

lemma length_replace:
  "filter (\<lambda>x. f x = k) xs = [y] \<Longrightarrow> length (filter (\<lambda>x. f x \<noteq> k) xs @ [r]) = length xs"
  using sum_length_filter_compl [of "\<lambda>x. f x = k" xs] by simp

text \<open>
  Claim C6. Recording a picker response replaces by identity. From any stored run, two
  submissions for the same \<open>(kind, stimulus, repeatIndex)\<close> are both accepted by
  \<open>onNext\<close>; after the first, and again after the second, the response list holds
  exactly one entry of that identity, the response just submitted; the second submission
  does not lengthen the list; the entries of every other identity are the ones the run had
  before; and a list with at most one response per identity keeps that property.
\<close>

theorem picker_response_replace:
  assumes "canNext ncA hA" and "canNext ncB hB" and "trialIdentity curA = trialIdentity curB"
  shows "\<exists>p1 p2.
      onNext (Some p) (Some curA) iA tA ncA hA False = Some p1
    \<and> onNext (Some p1) (Some curB) iB tB ncB hB False = Some p2
    \<and> filter (\<lambda>r. trialIdentity r = trialIdentity curA) (pickerResponses p1) = [newResponse curA iA tA ncA hA]
    \<and> filter (\<lambda>r. trialIdentity r = trialIdentity curB) (pickerResponses p2) = [newResponse curB iB tB ncB hB]
    \<and> length (pickerResponses p2) = length (pickerResponses p1)
    \<and> filter (\<lambda>r. trialIdentity r \<noteq> trialIdentity curB) (pickerResponses p2)
        = filter (\<lambda>r. trialIdentity r \<noteq> trialIdentity curB) (pickerResponses p)
    \<and> (distinct (map trialIdentity (pickerResponses p)) \<longrightarrow>
         distinct (map trialIdentity (pickerResponses p1)) \<and> distinct (map trialIdentity (pickerResponses p2)))"
proof -
  let ?k = "trialIdentity curB"
  let ?r1 = "newResponse curA iA tA ncA hA" and ?r2 = "newResponse curB iB tB ncB hB"
  let ?l1 = "filter (\<lambda>r. trialIdentity r \<noteq> ?k) (pickerResponses p) @ [?r1]"
  let ?l2 = "filter (\<lambda>r. trialIdentity r \<noteq> ?k) ?l1 @ [?r2]"
  let ?p1 = "p\<lparr>pickerResponses := ?l1\<rparr>" and ?p2 = "p\<lparr>pickerResponses := ?l2\<rparr>"
  have k1: "trialIdentity ?r1 = ?k" and k2: "trialIdentity ?r2 = ?k"
    using assms(3) by (simp_all add: trialIdentity_newResponse)
  have o1: "onNext (Some p) (Some curA) iA tA ncA hA False = Some ?p1"
    using assms(1,3) by (simp add: onNext_Some)
  have o2: "onNext (Some ?p1) (Some curB) iB tB ncB hB False = Some ?p2"
    using assms(2) by (simp add: onNext_Some)
  have f1: "filter (\<lambda>r. trialIdentity r = ?k) ?l1 = [?r1]"
    using k1 by (rule filter_replace)
  have f2: "filter (\<lambda>r. trialIdentity r = ?k) ?l2 = [?r2]"
    using k2 by (rule filter_replace)
  have len: "length ?l2 = length ?l1"
    using f1 by (rule length_replace)
  have oth: "filter (\<lambda>r. trialIdentity r \<noteq> ?k) ?l2 = filter (\<lambda>r. trialIdentity r \<noteq> ?k) (pickerResponses p)"
    using k1 k2 by simp
  have d: "distinct (map trialIdentity (pickerResponses p)) \<longrightarrow>
      distinct (map trialIdentity ?l1) \<and> distinct (map trialIdentity ?l2)"
  proof
    assume "distinct (map trialIdentity (pickerResponses p))"
    then have d1: "distinct (map trialIdentity ?l1)" using k1 by (rule distinct_replace)
    then have "distinct (map trialIdentity ?l2)" using k2 by (rule distinct_replace)
    with d1 show "distinct (map trialIdentity ?l1) \<and> distinct (map trialIdentity ?l2)" ..
  qed
  show ?thesis
    apply (rule exI [of _ ?p1], rule exI [of _ ?p2])
    using o1 o2 f1 f2 len oth d assms(3) by simp
qed

theorem picker_response_replace_witness:
  "canNext False ''#ff0000'' \<and> canNext True []
   \<and> (\<exists>p1 p2.
        onNext (Some samplePayload) (Some sampleTrial) 0 100 False ''#ff0000'' False = Some p1
      \<and> onNext (Some p1) (Some sampleTrial) 0 200 True [] False = Some p2
      \<and> filter (\<lambda>r. trialIdentity r = trialIdentity sampleTrial) (pickerResponses p2)
          = [newResponse sampleTrial 0 200 True []]
      \<and> length (pickerResponses p2) = length (pickerResponses p1))"
proof -
  have hA: "canNext False ''#ff0000''" by (simp add: canNext_def hex_eval)
  have hB: "canNext True []" by (simp add: canNext_def)
  from picker_response_replace [where curA = sampleTrial and curB = sampleTrial and p = samplePayload
      and iA = 0 and tA = 100 and iB = 0 and tB = 200, OF hA hB refl]
  obtain p1 p2 where
    "onNext (Some samplePayload) (Some sampleTrial) 0 100 False ''#ff0000'' False = Some p1"
    "onNext (Some p1) (Some sampleTrial) 0 200 True [] False = Some p2"
    "filter (\<lambda>r. trialIdentity r = trialIdentity sampleTrial) (pickerResponses p2)
          = [newResponse sampleTrial 0 200 True []]"
    "length (pickerResponses p2) = length (pickerResponses p1)"
    by blast
  with hA hB show ?thesis by blast
qed


section \<open>The trial plan: a seeded permutation of the cross product\<close>


lemma rand_index_eq: "rand_index s i = (s * (i + 1)) div 4294967296"
proof -
  have "(real s / 4294967296) * real (i + 1) = real (s * (i + 1)) / real 4294967296"
    by (simp add: algebra_simps)
  then have "\<lfloor>(real s / 4294967296) * real (i + 1)\<rfloor> = int ((s * (i + 1)) div 4294967296)"
    by (simp only: floor_divide_of_nat_eq)
  then show ?thesis by (simp add: rand_index_def)
qed









lemma length_plan:
  "length (concat (map (trialsOfRepeat gs ws) [0..<n])) = n * (length gs + length ws)"
  by (induction n) (simp_all add: trialsOfRepeat_def)

lemma plan_repeatIndex:
  "t \<in> set (concat (map (trialsOfRepeat gs ws) [0..<n])) \<Longrightarrow> repeatIndex t < int n"
  by (auto simp: trialsOfRepeat_def)





lemmas shuffle_eval = buildPickerTrials_def trialsOfRepeat_def shuffle_def lcg_next_def
  rand_index_eq trialIdentity_def Let_def




text \<open>
  Claim C3. With a seed given, the output of \<open>buildPickerTrials\<close> is a function of the
  stimuli, the repeat count and the seed alone: the clock, which only an absent seed
  reads, has no influence. The plan of the picker screen is the Fisher-Yates loop over
  the 99 default trials, driven by the linear congruential generator started at
  \<open>runIdSeed runId\<close>, a value computed from the character codes of the run identifier, so
  one run identifier gives one trial order. Without a seed the order does depend on the
  clock.
\<close>

theorem picker_trials_deterministic:
  "buildPickerTrials gs ws n (Some s) now = buildPickerTrials gs ws n (Some s) now'
   \<and> screenTrials runId now = screenTrials runId now'
   \<and> screenTrials runId now =
       shuffle_loop (concat (map (trialsOfRepeat DEFAULT_GRAPHEMES DEFAULT_WEEKDAYS) [0..<3]))
         (runIdSeed runId) 98
   \<and> buildPickerTrials [''A'', ''B''] [] 1 None 0 \<noteq> buildPickerTrials [''A'', ''B''] [] 1 None 1000"
proof -
  have "length (concat (map (trialsOfRepeat DEFAULT_GRAPHEMES DEFAULT_WEEKDAYS) [0..<3])) = 99"
    by (simp add: length_plan DEFAULT_GRAPHEMES_def DEFAULT_WEEKDAYS_def)
  then have "screenTrials runId now =
       shuffle_loop (concat (map (trialsOfRepeat DEFAULT_GRAPHEMES DEFAULT_WEEKDAYS) [0..<3]))
         (runIdSeed runId) 98"
    by (simp add: screenTrials_def buildPickerTrials_def shuffle_def)
  moreover have "buildPickerTrials [''A'', ''B''] [] 1 None 0 \<noteq> buildPickerTrials [''A'', ''B''] [] 1 None 1000"
    by (simp add: shuffle_eval)
  ultimately show ?thesis
    by (simp add: screenTrials_def buildPickerTrials_def shuffle_def)
qed

section \<open>The colour map of the per-stimulus trial builder\<close>

lemma lastColorStep_distinct: "distinct (map fst m) \<Longrightarrow> distinct (map fst (lastColorStep m r))"
  by (simp add: lastColorStep_def distinct_update split: option.splits)

lemma lastColor_fold_distinct: "distinct (map fst m) \<Longrightarrow> distinct (map fst (foldl lastColorStep m rs))"
  by (induction rs arbitrary: m) (simp_all add: lastColorStep_distinct)

lemma distinct_lastColorByG: "distinct (map fst (lastColorByG run))"
  by (simp add: lastColorByG_def lastColor_fold_distinct)

lemma lastColorStep_lookup:
  "map_of (lastColorStep m r) g =
     (if pr_grapheme r = g \<and> \<not> pr_isNoColor r \<and> pr_rgb r \<noteq> None then pr_rgb r else map_of m g)"
  by (auto simp: lastColorStep_def update_conv' split: option.splits)

lemma lastColorByG_lookup:
  "map_of (lastColorByG run) g =
     (let qs = filter (\<lambda>r. pr_grapheme r = g \<and> \<not> pr_isNoColor r \<and> pr_rgb r \<noteq> None) (run_pickerResponses run)
      in if qs = [] then None else pr_rgb (last qs))"
proof -
  have "map_of (foldl lastColorStep [] rs) g =
     (let qs = filter (\<lambda>r. pr_grapheme r = g \<and> \<not> pr_isNoColor r \<and> pr_rgb r \<noteq> None) rs
      in if qs = [] then None else pr_rgb (last qs))" for rs
    by (induction rs rule: rev_induct) (auto simp: lastColorStep_lookup Let_def)
  then show ?thesis by (simp add: lastColorByG_def)
qed


section \<open>The congruency screen: canonical colours\<close>

lemma canonicalStep_lookup:
  "map_of (canonicalStep m r) g =
     (case map_of m g of
        Some v \<Rightarrow> Some v
      | None \<Rightarrow> if hasCanonicalHex r \<and> grapheme r = g then Some (toLowerCase (hexText r)) else None)"
  by (auto simp: canonicalStep_def hasCanonicalHex_def update_conv' split: option.splits)

lemma canonical_fold_lookup:
  "map_of (foldl canonicalStep m rs) g =
     (case map_of m g of
        Some v \<Rightarrow> Some v
      | None \<Rightarrow> (case filter (\<lambda>r. hasCanonicalHex r \<and> grapheme r = g) rs of
                   [] \<Rightarrow> None
                 | r # _ \<Rightarrow> Some (toLowerCase (hexText r))))"
proof (induction rs arbitrary: m)
  case Nil
  show ?case by (simp split: option.splits)
next
  case (Cons r rs)
  show ?case
    by (simp add: Cons.IH canonicalStep_lookup split: option.splits)
qed

lemma canonical_fold_keeps:
  "map_of m g = Some v \<Longrightarrow> map_of (foldl canonicalStep m rs) g = Some v"
  by (simp add: canonical_fold_lookup)

text \<open>
  Claim C4, as the code has it. \<open>buildCanonicalMap\<close> of the congruency screen is
  first-wins among the responses of kind grapheme: the canonical colour of a stimulus is
  the trimmed, lowercased hex of the first response, in response order, that has kind
  grapheme, is not "no colour" and whose trimmed hex is not empty; a stimulus without
  such a response has no canonical colour; and responses that arrive later never change a
  colour that is already there. The colour map that \<open>buildCongruencyTrialsFromPicker\<close>
  builds for itself is a different one: it holds the colour of the last coloured response
  of a stimulus.
\<close>

theorem canonical_first_wins:
  "map_of (buildCanonicalMap p) g =
     (case filter (\<lambda>r. hasCanonicalHex r \<and> grapheme r = g) (pickerResponses p) of
        [] \<Rightarrow> None
      | r # _ \<Rightarrow> Some (toLowerCase (hexText r)))
   \<and> (map_of (buildCanonicalMap p) g = Some v \<longrightarrow>
        map_of (buildCanonicalMap (p\<lparr>pickerResponses := pickerResponses p @ later\<rparr>)) g = Some v)
   \<and> map_of (lastColorByG run) g =
       (let qs = filter (\<lambda>r. pr_grapheme r = g \<and> \<not> pr_isNoColor r \<and> pr_rgb r \<noteq> None) (run_pickerResponses run)
        in if qs = [] then None else pr_rgb (last qs))"
  by (simp add: buildCanonicalMap_def canonical_fold_lookup canonical_fold_keeps lastColorByG_lookup)

lemmas canonical_eval = buildCanonicalMap_def canonicalStep_def payloadOf_def coloured_def
  hexText_def trim_def isWhitespace_def toLowerCase_def lowerChar_def AList.update.simps

theorem canonical_first_wins_witness:
  "map_of (buildCanonicalMap (payloadOf [coloured ''Q'' Grapheme 0 ''#ff0000''])) ''Q'' = Some ''#ff0000''
   \<and> map_of (buildCanonicalMap (payloadOf [coloured ''Q'' Grapheme 0 ''#ff0000'', coloured ''Q'' Grapheme 1 ''#00ff00''])) ''Q''
       = Some ''#ff0000''"
proof -
  let ?p = "payloadOf [coloured ''Q'' Grapheme 0 ''#ff0000'']"
  have a: "map_of (buildCanonicalMap ?p) ''Q'' = Some ''#ff0000''"
    by (simp add: canonical_eval)
  have "?p\<lparr>pickerResponses := pickerResponses ?p @ [coloured ''Q'' Grapheme 1 ''#00ff00'']\<rparr>
      = payloadOf [coloured ''Q'' Grapheme 0 ''#ff0000'', coloured ''Q'' Grapheme 1 ''#00ff00'']"
    by (simp add: payloadOf_def)
  with canonical_first_wins [of ?p "''Q''" "''#ff0000''" "[coloured ''Q'' Grapheme 1 ''#00ff00'']", THEN conjunct2, THEN conjunct1] a
  show ?thesis by simp
qed

text \<open>
  Claim C4 as stated speaks of every stimulus and of the colour map as such. A weekday
  answered with a colour has no canonical colour, because the loop of \<open>buildCanonicalMap\<close>
  skips every response whose kind is not grapheme; and the map of
  \<open>buildCongruencyTrialsFromPicker\<close> gives a stimulus answered red and then blue the later
  colour.
\<close>

theorem canonical_not_first_for_all:
  "map_of (buildCanonicalMap (payloadOf [coloured ''Monday'' Weekday 0 ''#ff0000''])) ''Monday'' = None
   \<and> specCanonicalColor (pickerResponses (payloadOf [coloured ''Monday'' Weekday 0 ''#ff0000''])) ''Monday''
       = Some ''#ff0000''
   \<and> map_of (lastColorByG (runOf [picked ''Q'' 0 red, picked ''Q'' 1 blue] [])) ''Q'' = Some blue"
  by (simp add: canonical_eval specCanonicalColor_def lastColorByG_def lastColorStep_def runOf_def picked_def)

section \<open>The congruency screen: forty trials\<close>

lemma arrayFromSet_fold:
  "set (foldl (\<lambda>acc x. if x \<in> set acc then acc else acc @ [x]) acc xs) = set acc \<union> set xs
   \<and> (distinct acc \<longrightarrow> distinct (foldl (\<lambda>acc x. if x \<in> set acc then acc else acc @ [x]) acc xs))"
  by (induction xs arbitrary: acc) auto


lemma distinct_arrayFromSet: "distinct (arrayFromSet xs)"
  using arrayFromSet_fold [of "[]" xs] by (simp add: arrayFromSet_def)














section \<open>The scorer: congruency accuracy and reaction time\<close>

lemma js_div_Some: "b \<noteq> 0 \<Longrightarrow> js_div a b = Some (a / b)"
  by (simp add: js_div_def)

lemma foldl_plus: "foldl (\<lambda>a b. a + f b) (a::real) xs = a + sum_list (map f xs)"
  by (induction xs arbitrary: a) simp_all

lemma accuracy_value:
  "congruencyAccuracyPct (scoreBattery lc run n) =
     (if run_congruencyResponses run = [] then Some 0
      else Some (100 * real (length (filter cr_correct (run_congruencyResponses run)))
                  / real (length (run_congruencyResponses run))))"
  by (simp add: scoreBattery_def Let_def js_div_Some)

lemma meanRt_value:
  "congruencyMeanRtSec (scoreBattery lc run n) =
     (if run_congruencyResponses run = [] then Some 0
      else Some (sum_list (map cr_rtMs (run_congruencyResponses run))
                  / real (length (run_congruencyResponses run)) / 1000))"
  by (simp add: scoreBattery_def Let_def js_div_Some foldl_plus)

text \<open>
  Claim C5. For every run, \<open>scoreBattery\<close> reports as accuracy 100 times the number of
  congruency responses marked correct over the number of congruency responses, and as
  mean reaction time the arithmetic mean of their reaction times in milliseconds divided
  by 1000; both are 0 when there is no congruency response, and neither division has a
  zero divisor. Seven correct responses out of ten give exactly 70. (Numbers are reals
  here.)
\<close>

theorem congruency_scores:
  "congruencyAccuracyPct (scoreBattery lc run n) =
     (if run_congruencyResponses run = [] then Some 0
      else Some (100 * real (length (filter cr_correct (run_congruencyResponses run)))
                  / real (length (run_congruencyResponses run))))
   \<and> congruencyMeanRtSec (scoreBattery lc run n) =
     (if run_congruencyResponses run = [] then Some 0
      else Some (sum_list (map cr_rtMs (run_congruencyResponses run))
                  / real (length (run_congruencyResponses run)) / 1000))
   \<and> (length (run_congruencyResponses run) = 10
        \<and> length (filter cr_correct (run_congruencyResponses run)) = 7
        \<longrightarrow> congruencyAccuracyPct (scoreBattery lc run n) = Some 70)"
proof -
  have "congruencyAccuracyPct (scoreBattery lc run n) = Some 70"
    if "length (run_congruencyResponses run) = 10"
      "length (filter cr_correct (run_congruencyResponses run)) = 7"
  proof -
    from that(1) have "run_congruencyResponses run \<noteq> []" by auto
    with that show ?thesis by (simp add: accuracy_value)
  qed
  then show ?thesis by (simp only: accuracy_value meanRt_value) simp
qed

theorem congruency_scores_witness:
  "length (replicate 7 (answered True 500) @ replicate 3 (answered False 1500)) = 10
   \<and> length (filter cr_correct (replicate 7 (answered True 500) @ replicate 3 (answered False 1500))) = 7
   \<and> congruencyAccuracyPct
        (scoreBattery byFirstChar (runOf [] (replicate 7 (answered True 500) @ replicate 3 (answered False 1500))) 3)
       = Some 70
   \<and> congruencyMeanRtSec (scoreBattery byFirstChar (runOf [] [answered True 500, answered True 1500]) 3) = Some 1"
proof -
  let ?cs = "replicate 7 (answered True 500) @ replicate 3 (answered False 1500)"
  have l: "length ?cs = 10" by simp
  have f: "length (filter cr_correct ?cs) = 7" by (simp add: answered_def)
  from congruency_scores [of byFirstChar "runOf [] ?cs" 3] l f
  have a: "congruencyAccuracyPct (scoreBattery byFirstChar (runOf [] ?cs) 3) = Some 70"
    by (simp add: runOf_def)
  from congruency_scores [of byFirstChar "runOf [] [answered True 500, answered True 1500]" 3]
  have b: "congruencyMeanRtSec (scoreBattery byFirstChar (runOf [] [answered True 500, answered True 1500]) 3) = Some 1"
    by (simp add: runOf_def answered_def)
  from l f a b show ?thesis by (intro conjI)
qed

section \<open>The scorer: rows, score and degenerate inputs\<close>

lemma set_insertRow: "set (insertRow lc x ys) = insert x (set ys)"
  by (induction ys) auto

lemma set_sortRows: "set (sortRows lc rows) = set rows"
  by (induction rows) (simp_all add: sortRows_def set_insertRow)

lemma mset_insertRow: "mset (insertRow lc x ys) = add_mset x (mset ys)"
  by (induction ys) auto

lemma mset_sortRows: "mset (sortRows lc rows) = mset rows"
  by (induction rows) (simp_all add: sortRows_def mset_insertRow)

lemma pickerRows_set:
  "set (pickerRows (scoreBattery lc run n))
     = pickerRow n ` set (foldl groupStep [] (run_pickerResponses run))"
  by (simp add: scoreBattery_def Let_def set_sortRows)

lemma pickerRow_mean:
  "row_meanDeltaE (pickerRow n e) =
     Some (let deltas = pairwiseDeltas (List.map_filter (\<lambda>x. x) (buildSlots n (snd e)))
           in if deltas = [] then 0 else sum_list deltas / real (length deltas))"
  using foldl_plus [of "\<lambda>b. b" 0]
  by (simp add: pickerRow_def Let_def js_div_Some)








lemmas score_eval = scoreBattery_def runOf_def picked_def noColour_def groupStep_def pickerRow_def
  buildSlots_def slotStep_def sortRows_def pairwiseDeltas_def List.map_filter_def Let_def
  js_div_def js_add_def AList.update.simps


section \<open>The scorer: slots and the mean distance of a row\<close>

lemma filter_above_upt: "filter (\<lambda>j. i < j) [0..<n] = [Suc i..<n]"
  by (induction n) auto

lemma allPairs_concat: "allPairs n = concat (map (\<lambda>i. map (Pair i) [Suc i..<n]) [0..<n])"
  by (simp add: allPairs_def List.product_concat_map filter_concat filter_map comp_def filter_above_upt)

lemma pairwiseDeltas_allPairs:
  "pairwiseDeltas cs = map (\<lambda>(i, j). deltaE76 (rgbToLab (cs ! i)) (rgbToLab (cs ! j))) (allPairs (length cs))"
  by (simp add: pairwiseDeltas_def allPairs_concat map_concat comp_def)

lemma set_allPairs: "set (allPairs n) = {(i, j). i < j \<and> j < n}"
  by (auto simp: allPairs_def)

lemma distinct_allPairs: "distinct (allPairs n)"
  by (simp add: allPairs_def distinct_product)

lemma allPairs_empty_iff: "allPairs n = [] \<longleftrightarrow> n \<le> 1"
proof
  assume "allPairs n = []"
  then have "(0, 1) \<notin> set (allPairs n)" by simp
  then show "n \<le> 1" by (simp add: set_allPairs)
next
  assume "n \<le> 1"
  then have "set (allPairs n) = {}" by (auto simp: set_allPairs)
  then show "allPairs n = []" by simp
qed

lemma pickerRow_specMean:
  "row_meanDeltaE (pickerRow n e) = Some (specMeanDeltaE (List.map_filter (\<lambda>x. x) (row_repeats (pickerRow n e))))"
proof -
  have "row_repeats (pickerRow n e) = buildSlots n (snd e)" by (simp add: pickerRow_def Let_def)
  then show ?thesis
    by (simp add: pickerRow_mean Let_def specMeanDeltaE_def pairwiseDeltas_allPairs allPairs_empty_iff)
qed


lemma case_last: "(case ys of [] \<Rightarrow> a | x # xs \<Rightarrow> f (last (x # xs))) = (if ys = [] then a else f (last ys))"
  by (cases ys) simp_all

lemma length_slots_fold: "length (foldl (slotStep n) slots rs) = length slots"
  by (induction rs arbitrary: slots) (simp_all add: slotStep_def)

lemma slots_fold_nth:
  assumes "length slots = nat n" "i < nat n"
  shows "foldl (slotStep n) slots rs ! i =
     (let qs = filter (\<lambda>r. pr_repeatIndex r = int i \<and> \<not> pr_isNoColor r \<and> pr_rgb r \<noteq> None) rs
      in if qs = [] then slots ! i else pr_rgb (last qs))"
proof (induction rs rule: rev_induct)
  case Nil
  show ?case by simp
next
  case (snoc r rs)
  let ?prev = "foldl (slotStep n) slots rs"
  let ?q = "\<lambda>r. pr_repeatIndex r = int i \<and> \<not> pr_isNoColor r \<and> pr_rgb r \<noteq> None"
  have len: "i < length ?prev" using assms by (simp add: length_slots_fold)
  have fold: "foldl (slotStep n) slots (rs @ [r]) = slotStep n ?prev r" by simp
  show ?case
  proof (cases "?q r")
    case True
    with assms(2) have "slotStep n ?prev r = ?prev[i := pr_rgb r]"
      by (auto simp: slotStep_def)
    with len have step: "slotStep n ?prev r ! i = pr_rgb r" by simp
    from True have f: "filter ?q (rs @ [r]) = filter ?q rs @ [r]" by simp
    show ?thesis unfolding fold f step by (simp add: Let_def)
  next
    case False
    have step: "slotStep n ?prev r ! i = ?prev ! i"
    proof (cases "pr_isNoColor r \<or> pr_rgb r = None \<or> \<not> (0 \<le> pr_repeatIndex r \<and> pr_repeatIndex r < n)")
      case True
      then have "slotStep n ?prev r = ?prev" by (auto simp: slotStep_def)
      then show ?thesis by simp
    next
      case inr: False
      with False have "nat (pr_repeatIndex r) \<noteq> i" by auto
      moreover from inr have "slotStep n ?prev r = ?prev[nat (pr_repeatIndex r) := pr_rgb r]"
        by (auto simp: slotStep_def)
      ultimately show ?thesis by simp
    qed
    from False have f: "filter ?q (rs @ [r]) = filter ?q rs" by simp
    show ?thesis unfolding fold f step by (rule snoc.IH)
  qed
qed

lemma buildSlots_length: "length (buildSlots n rs) = nat n"
  by (simp add: buildSlots_def length_slots_fold)

lemma buildSlots_nth:
  "i < nat n \<Longrightarrow>
   buildSlots n (filter (\<lambda>r. pr_grapheme r = g) rs) ! i = specSlot rs g (int i)"
proof -
  assume i: "i < nat n"
  have f: "filter (\<lambda>r. pr_repeatIndex r = int i \<and> \<not> pr_isNoColor r \<and> pr_rgb r \<noteq> None)
        (filter (\<lambda>r. pr_grapheme r = g) rs)
      = filter (\<lambda>r. pr_grapheme r = g \<and> pr_repeatIndex r = int i \<and> \<not> pr_isNoColor r \<and> pr_rgb r \<noteq> None) rs"
    by (simp add: conj_commute conj_left_commute)
  show ?thesis
    unfolding buildSlots_def specSlot_def case_last
    using i by (subst slots_fold_nth) (simp_all add: Let_def f)
qed

lemma slotStep_out_of_range:
  "\<not> (0 \<le> pr_repeatIndex r \<and> pr_repeatIndex r < n) \<Longrightarrow> slotStep n slots r = slots"
  by (auto simp: slotStep_def)

lemma buildSlots_in_range:
  "buildSlots n rs = buildSlots n (filter (\<lambda>r. 0 \<le> pr_repeatIndex r \<and> pr_repeatIndex r < n) rs)"
proof -
  have "foldl (slotStep n) slots rs
      = foldl (slotStep n) slots (filter (\<lambda>r. 0 \<le> pr_repeatIndex r \<and> pr_repeatIndex r < n) rs)" for slots
    by (induction rs arbitrary: slots) (simp_all add: slotStep_out_of_range)
  then show ?thesis by (simp add: buildSlots_def)
qed


lemma groupStep_lookup:
  "map_of (groupStep m r) g =
     (if g = pr_grapheme r
      then Some ((case map_of m g of None \<Rightarrow> [] | Some xs \<Rightarrow> xs) @ [r])
      else map_of m g)"
  by (auto simp: groupStep_def Let_def update_conv' split: option.splits)

lemma groupStep_distinct: "distinct (map fst m) \<Longrightarrow> distinct (map fst (groupStep m r))"
  by (simp add: groupStep_def Let_def distinct_update)

lemma group_fold:
  "distinct (map fst m) \<Longrightarrow>
   distinct (map fst (foldl groupStep m rs))
   \<and> (\<forall>g. map_of (foldl groupStep m rs) g =
         (if g \<in> pr_grapheme ` set rs \<or> map_of m g \<noteq> None
          then Some ((case map_of m g of None \<Rightarrow> [] | Some xs \<Rightarrow> xs) @ filter (\<lambda>r. pr_grapheme r = g) rs)
          else None))"
proof (induction rs arbitrary: m)
  case Nil
  then show ?case by (auto split: option.splits)
next
  case (Cons r rs)
  from Cons.prems have d: "distinct (map fst (groupStep m r))" by (rule groupStep_distinct)
  show ?case
    using Cons.IH [OF d] by (auto simp: groupStep_lookup split: option.splits)
qed

lemma groups_entries:
  assumes "(g, xs) \<in> set (foldl groupStep [] rs)"
  shows "g \<in> pr_grapheme ` set rs \<and> xs = filter (\<lambda>r. pr_grapheme r = g) rs"
proof -
  have d: "distinct (map fst (foldl groupStep [] rs))"
    and m: "\<And>g. map_of (foldl groupStep [] rs) g =
         (if g \<in> pr_grapheme ` set rs then Some (filter (\<lambda>r. pr_grapheme r = g) rs) else None)"
    using group_fold [of "[]" rs] by simp_all
  from d assms have "map_of (foldl groupStep [] rs) g = Some xs" by simp
  with m [of g] show ?thesis by (simp split: if_splits)
qed

lemma groups_keys:
  "distinct (map fst (foldl groupStep [] rs))
   \<and> set (map fst (foldl groupStep [] rs)) = pr_grapheme ` set rs"
proof -
  have d: "distinct (map fst (foldl groupStep [] rs))"
    and m: "\<And>g. map_of (foldl groupStep [] rs) g =
         (if g \<in> pr_grapheme ` set rs then Some (filter (\<lambda>r. pr_grapheme r = g) rs) else None)"
    using group_fold [of "[]" rs] by simp_all
  have "g \<in> fst ` set (foldl groupStep [] rs) \<longleftrightarrow> g \<in> pr_grapheme ` set rs" for g
    using m [of g] map_of_eq_None_iff [of "foldl groupStep [] rs" g] by (auto split: if_splits)
  with d show ?thesis by auto
qed

lemma row_grapheme_pickerRow: "row_grapheme (pickerRow n e) = fst e"
  by (simp add: pickerRow_def Let_def)

lemma row_repeats_pickerRow: "row_repeats (pickerRow n e) = buildSlots n (snd e)"
  by (simp add: pickerRow_def Let_def)

lemma row_graphemes:
  "distinct (map row_grapheme (pickerRows (scoreBattery lc run n)))
   \<and> set (map row_grapheme (pickerRows (scoreBattery lc run n))) = pr_grapheme ` set (run_pickerResponses run)"
proof -
  let ?byG = "foldl groupStep [] (run_pickerResponses run)"
  have "mset (pickerRows (scoreBattery lc run n)) = mset (map (pickerRow n) ?byG)"
    by (simp add: scoreBattery_def Let_def mset_sortRows)
  then have "mset (map row_grapheme (pickerRows (scoreBattery lc run n)))
      = mset (map row_grapheme (map (pickerRow n) ?byG))"
    by (simp only: mset_map)
  also have "map row_grapheme (map (pickerRow n) ?byG) = map fst ?byG"
    by (simp add: row_grapheme_pickerRow comp_def)
  finally have e: "mset (map row_grapheme (pickerRows (scoreBattery lc run n))) = mset (map fst ?byG)" .
  from e have "distinct (map row_grapheme (pickerRows (scoreBattery lc run n))) = distinct (map fst ?byG)"
    by (rule mset_eq_imp_distinct_iff)
  moreover from e have "set (map row_grapheme (pickerRows (scoreBattery lc run n))) = set (map fst ?byG)"
    by (rule mset_eq_setD)
  ultimately show ?thesis using groups_keys [of "run_pickerResponses run"] by simp
qed

lemma row_of_scoreBattery:
  assumes "row \<in> set (pickerRows (scoreBattery lc run n))"
  shows "row_grapheme row \<in> pr_grapheme ` set (run_pickerResponses run)
     \<and> row = pickerRow n (row_grapheme row,
          filter (\<lambda>r. pr_grapheme r = row_grapheme row) (run_pickerResponses run))"
proof -
  from assms obtain g xs where e: "(g, xs) \<in> set (foldl groupStep [] (run_pickerResponses run))"
    and r: "row = pickerRow n (g, xs)"
    by (auto simp: pickerRows_set)
  from r have "row_grapheme row = g" by (simp add: row_grapheme_pickerRow)
  with groups_entries [OF e] r show ?thesis by simp
qed


lemma deltaE76_same: "deltaE76 a a = 0"
  by (simp add: deltaE76_def)

text \<open>
  Claim C1. For every run, every repeat count and every collation, each row of
  \<open>scoreBattery\<close> belongs to a stimulus that has a response, and there is exactly one row
  per such stimulus. The row has \<open>repeats\<close> slots; slot \<open>i\<close> holds the colour of the
  response for the stimulus with repeat index \<open>i\<close> that has a colour (the last such
  response, should the run hold several) and is null without one, so a "no colour"
  response writes no slot; the slots are the ones built from the responses whose repeat
  index is at least 0 and below \<open>repeats\<close> alone, the others being dropped without any
  error. The row's \<open>meanDeltaE\<close> is a finite number: the arithmetic mean of the
  \<open>deltaE76\<close> distances of all pairs of non-null slots, 0 when at most one slot is
  non-null; the pairs are all \<open>(i, j)\<close> with \<open>i < j\<close>, each once.
\<close>

theorem picker_row_mean_delta:
  "(\<forall>row \<in> set (pickerRows (scoreBattery lc run n)).
       row_grapheme row \<in> pr_grapheme ` set (run_pickerResponses run)
     \<and> length (row_repeats row) = nat n
     \<and> (\<forall>i < nat n. row_repeats row ! i = specSlot (run_pickerResponses run) (row_grapheme row) (int i))
     \<and> row_repeats row =
         buildSlots n (filter (\<lambda>r. 0 \<le> pr_repeatIndex r \<and> pr_repeatIndex r < n)
                        (filter (\<lambda>r. pr_grapheme r = row_grapheme row) (run_pickerResponses run)))
     \<and> row_meanDeltaE row = Some (specMeanDeltaE (List.map_filter (\<lambda>x. x) (row_repeats row))))
   \<and> distinct (map row_grapheme (pickerRows (scoreBattery lc run n)))
   \<and> set (map row_grapheme (pickerRows (scoreBattery lc run n))) = pr_grapheme ` set (run_pickerResponses run)
   \<and> set (allPairs k) = {(i, j). i < j \<and> j < k} \<and> distinct (allPairs k)"
proof -
  have "row_grapheme row \<in> pr_grapheme ` set (run_pickerResponses run)
     \<and> length (row_repeats row) = nat n
     \<and> (\<forall>i < nat n. row_repeats row ! i = specSlot (run_pickerResponses run) (row_grapheme row) (int i))
     \<and> row_repeats row =
         buildSlots n (filter (\<lambda>r. 0 \<le> pr_repeatIndex r \<and> pr_repeatIndex r < n)
                        (filter (\<lambda>r. pr_grapheme r = row_grapheme row) (run_pickerResponses run)))
     \<and> row_meanDeltaE row = Some (specMeanDeltaE (List.map_filter (\<lambda>x. x) (row_repeats row)))"
    if "row \<in> set (pickerRows (scoreBattery lc run n))" for row
  proof -
    let ?g = "row_grapheme row"
    let ?rs = "filter (\<lambda>r. pr_grapheme r = ?g) (run_pickerResponses run)"
    from row_of_scoreBattery [OF that]
    have g: "?g \<in> pr_grapheme ` set (run_pickerResponses run)" and r: "row = pickerRow n (?g, ?rs)"
      by simp_all
    have s: "row_repeats row = buildSlots n ?rs"
      by (subst r) (simp add: row_repeats_pickerRow)
    have m: "row_meanDeltaE row = Some (specMeanDeltaE (List.map_filter (\<lambda>x. x) (row_repeats row)))"
      by (subst (1 2) r) (rule pickerRow_specMean)
    from s have "length (row_repeats row) = nat n" by (simp add: buildSlots_length)
    moreover from s have "\<forall>i < nat n. row_repeats row ! i = specSlot (run_pickerResponses run) ?g (int i)"
      by (simp add: buildSlots_nth)
    moreover from s have "row_repeats row = buildSlots n (filter (\<lambda>r. 0 \<le> pr_repeatIndex r \<and> pr_repeatIndex r < n) ?rs)"
      using buildSlots_in_range [of n ?rs] by simp
    ultimately show ?thesis using g m by blast
  qed
  then show ?thesis
    using row_graphemes [of lc run n] set_allPairs [of k] distinct_allPairs [of k] by blast
qed

theorem picker_row_mean_delta_witness:
  "pickerRows (scoreBattery byFirstChar
       (runOf [picked ''A'' 0 red, picked ''A'' 1 red, noColour ''A'' 2, picked ''A'' 7 blue, picked ''A'' (- 1) blue] []) 3)
     = [\<lparr>row_grapheme = ''A'', row_repeats = [Some red, Some red, None], row_meanDeltaE = Some 0\<rparr>]"
proof -
  let ?run = "runOf [picked ''A'' 0 red, picked ''A'' 1 red, noColour ''A'' 2, picked ''A'' 7 blue, picked ''A'' (- 1) blue] []"
  let ?rows = "pickerRows (scoreBattery byFirstChar ?run 3)"
  have "map (\<lambda>r. (row_grapheme r, row_repeats r)) ?rows = [(''A'', [Some red, Some red, None])]"
    by (simp add: score_eval numeral_3_eq_3)
  then obtain row where rows: "?rows = [row]"
    and row: "row_grapheme row = ''A''" "row_repeats row = [Some red, Some red, None]"
    by auto
  then have "row \<in> set ?rows" by simp
  with picker_row_mean_delta [of byFirstChar ?run 3 0]
  have "row_meanDeltaE row = Some (specMeanDeltaE (List.map_filter (\<lambda>x. x) (row_repeats row)))"
    by blast
  also have "List.map_filter (\<lambda>x. x) (row_repeats row) = [red, red]"
    by (simp add: row List.map_filter_def)
  also have "specMeanDeltaE [red, red] = 0"
    by (simp add: specMeanDeltaE_def allPairs_def deltaE76_same)
  finally have "row_meanDeltaE row = Some 0" .
  with rows row show ?thesis by (cases row) simp
qed

section \<open>Congruency trials: the colour of an incongruent trial\<close>

lemma rgb_eq_iff: "(rgb_r c = rgb_r d \<and> rgb_g c = rgb_g d \<and> rgb_b c = rgb_b d) \<longleftrightarrow> c = (d::Rgb)"
  by (cases c; cases d) auto

lemma random_index: "unitInterval rnd \<Longrightarrow> 0 < n \<Longrightarrow> nat \<lfloor>rnd p * real n\<rfloor> < n"
proof -
  assume u: "unitInterval rnd" and n: "0 < n"
  from u have r: "0 \<le> rnd p" "rnd p < 1" by (simp_all add: unitInterval_def)
  from r(2) n have "rnd p * real n < real n" by simp
  then have "\<lfloor>rnd p * real n\<rfloor> < int n" by (simp add: floor_less_iff)
  moreover from r(1) have "0 \<le> \<lfloor>rnd p * real n\<rfloor>" by simp
  ultimately show ?thesis by linarith
qed

lemma pickLoop_single_colour:
  assumes "unitInterval rnd" "all \<noteq> []" "\<forall>c \<in> set all. c = target"
  shows "fst (pickLoop rnd all target k p) = target"
proof (induction k arbitrary: p)
  case 0
  from assms(2,3) show ?case by (cases all) simp_all
next
  case (Suc k)
  have "nat \<lfloor>rnd p * real (length all)\<rfloor> < length all"
    using assms(1,2) by (simp add: random_index)
  then have "all ! nat \<lfloor>rnd p * real (length all)\<rfloor> = target"
    using assms(3) by simp
  with Suc show ?case by (simp add: Let_def)
qed

lemma pickDifferentColor_short: "length all \<le> 1 \<Longrightarrow> fst (pickDifferentColor rnd all target p) = target"
  by (simp add: pickDifferentColor_def)

lemma pickDifferentColor_single_colour:
  assumes "unitInterval rnd" "\<forall>c \<in> set all. c = target"
  shows "fst (pickDifferentColor rnd all target p) = target"
proof (cases "length all \<le> 1")
  case True
  then show ?thesis by (rule pickDifferentColor_short)
next
  case False
  then have "all \<noteq> []" by auto
  with False assms show ?thesis by (simp add: pickDifferentColor_def pickLoop_single_colour)
qed

lemma pickLoop_zero_stream:
  "all ! 0 = target \<Longrightarrow> fst (pickLoop (\<lambda>p. 0) all target k p) = target"
  by (induction k arbitrary: p) (simp_all add: Let_def)

lemma pickDifferentColor_fallback: "fst (pickDifferentColor (\<lambda>p. 0) [red, blue] red 0) = red"
  by (simp add: pickDifferentColor_def pickLoop_zero_stream)

lemma shuffleInPlace_loop_perm:
  "unitInterval rnd \<Longrightarrow> i < length arr \<Longrightarrow> mset (shuffleInPlace_loop rnd arr p i) = mset arr"
proof (induction i arbitrary: arr p)
  case 0
  show ?case by simp
next
  case (Suc i)
  let ?j = "nat \<lfloor>rnd p * real (Suc i + 1)\<rfloor>"
  let ?a = "arr[Suc i := arr ! ?j, ?j := arr ! Suc i]"
  have "?j < Suc i + 1" using Suc.prems(1) by (intro random_index) simp_all
  with Suc.prems have j: "?j < length arr" by simp
  have "mset ?a = mset arr" using mset_swap [OF j Suc.prems(2)] by simp
  moreover have "i < length ?a" using Suc.prems by simp
  ultimately show ?case using Suc.IH [of ?a "p + 1"] Suc.prems(1) by (simp add: Let_def)
qed

lemma shuffleInPlace_perm: "unitInterval rnd \<Longrightarrow> mset (shuffleInPlace rnd arr p) = mset arr"
  by (cases arr rule: rev_cases) (simp_all add: shuffleInPlace_def shuffleInPlace_loop_perm)

lemma map_filter_alist:
  "distinct (map fst m) \<Longrightarrow> List.map_filter (map_of m) (map fst m) = map snd m"
proof -
  assume d: "distinct (map fst m)"
  then have "map_of m (fst p) = Some (snd p)" if "p \<in> set m" for p
    using that by (cases p) simp
  then have "filter (\<lambda>x. map_of m (fst x) \<noteq> None) m = m"
    and "map (\<lambda>x. the (map_of m (fst x))) m = map snd m"
    by (simp_all add: filter_id_conv)
  then show ?thesis by (simp add: List.map_filter_def filter_map comp_def)
qed

lemma trialPair_own_colour:
  assumes "unitInterval rnd" "\<forall>c \<in> set colors. c = target" "map_of m g = Some target"
    "\<forall>t \<in> set (fst st). showsOwnColour m t"
  shows "\<forall>t \<in> set (fst (trialPair rnd suffix colors g target st i)). showsOwnColour m t"
  using assms pickDifferentColor_single_colour [OF assms(1,2)]
  by (auto simp: trialPair_def Let_def showsOwnColour_def)

lemma trialPairs_own_colour:
  assumes "unitInterval rnd" "\<forall>c \<in> set colors. c = target" "map_of m g = Some target"
  shows "\<forall>t \<in> set (fst st). showsOwnColour m t \<Longrightarrow>
    \<forall>t \<in> set (fst (foldl (trialPair rnd suffix colors g target) st is)). showsOwnColour m t"
proof (induction "is" arbitrary: st)
  case Nil
  then show ?case by simp
next
  case (Cons i "is")
  from trialPair_own_colour [OF assms Cons.prems]
  have "\<forall>t \<in> set (fst (trialPair rnd suffix colors g target st i)). showsOwnColour m t" .
  then show ?case using Cons.IH by simp
qed

lemma trialsOfGrapheme_own_colour:
  assumes "unitInterval rnd" "\<forall>c \<in> set colors. \<forall>c' \<in> snd ` set m. c = c'"
    "\<forall>t \<in> set (fst st). showsOwnColour m t"
  shows "\<forall>t \<in> set (fst (trialsOfGrapheme rnd suffix m colors k st g)). showsOwnColour m t"
proof (cases "map_of m g")
  case None
  with assms(3) show ?thesis by (simp add: trialsOfGrapheme_def)
next
  case (Some target)
  then have "target \<in> snd ` set m" by (force dest: map_of_SomeD)
  with assms(2) have "\<forall>c \<in> set colors. c = target" by blast
  from trialPairs_own_colour [OF assms(1) this Some assms(3)] Some
  show ?thesis by (simp add: trialsOfGrapheme_def)
qed

lemma built_own_colour:
  assumes "unitInterval rnd" "\<forall>c \<in> set colors. \<forall>c' \<in> snd ` set m. c = c'"
  shows "\<forall>t \<in> set (fst st). showsOwnColour m t \<Longrightarrow>
    \<forall>t \<in> set (fst (foldl (trialsOfGrapheme rnd suffix m colors k) st gs)). showsOwnColour m t"
proof (induction gs arbitrary: st)
  case Nil
  then show ?case by simp
next
  case (Cons g gs)
  from trialsOfGrapheme_own_colour [OF assms Cons.prems]
  have "\<forall>t \<in> set (fst (trialsOfGrapheme rnd suffix m colors k st g)). showsOwnColour m t" .
  then show ?case using Cons.IH by simp
qed


text \<open>
  Claim C10. An incongruent trial need not differ in colour from the congruent one. For
  every run whose colour map \<open>lastColorByG\<close> holds at most one distinct colour, and for
  every stream of random numbers in the unit interval, every trial that
  \<open>buildCongruencyTrialsFromPicker\<close> returns, the incongruent ones included, shows the
  colour that the map holds for its own grapheme. The reason is \<open>pickDifferentColor\<close>: it
  answers the target itself for a pool of at most one colour, and with a larger pool it
  can still answer the target, through \<open>all[0]\<close> after twenty draws that all hit the target.
  The colour of a grapheme in the map is the colour of its last coloured response.
\<close>

theorem incongruent_may_show_own_colour:
  "(unitInterval rnd
      \<and> (\<forall>c \<in> snd ` set (lastColorByG run). \<forall>c' \<in> snd ` set (lastColorByG run). c = c') \<longrightarrow>
      (\<forall>t \<in> set (buildCongruencyTrialsFromPicker rnd suffix run k).
          \<not> ct_isCongruent t \<longrightarrow> map_of (lastColorByG run) (ct_grapheme t) = Some (ct_shownRgb t)))
   \<and> (length all \<le> 1 \<longrightarrow> fst (pickDifferentColor rnd all target p) = target)
   \<and> fst (pickDifferentColor (\<lambda>p. 0) [red, blue] red 0) = red
   \<and> map_of (lastColorByG run) g =
       (let qs = filter (\<lambda>r. pr_grapheme r = g \<and> \<not> pr_isNoColor r \<and> pr_rgb r \<noteq> None) (run_pickerResponses run)
        in if qs = [] then None else pr_rgb (last qs))"
proof -
  let ?m = "lastColorByG run"
  let ?colors = "List.map_filter (map_of ?m) (map fst ?m)"
  have main: "\<forall>t \<in> set (buildCongruencyTrialsFromPicker rnd suffix run k). showsOwnColour ?m t"
    if u: "unitInterval rnd"
      and one: "\<forall>c \<in> snd ` set ?m. \<forall>c' \<in> snd ` set ?m. c = c'"
  proof -
    have c: "?colors = map snd ?m" by (rule map_filter_alist [OF distinct_lastColorByG])
    have "set ?colors = snd ` set ?m" unfolding c by (rule set_map)
    with one have one': "\<forall>c \<in> set ?colors. \<forall>c' \<in> snd ` set ?m. c = c'"
      by blast
    let ?built = "foldl (trialsOfGrapheme rnd suffix ?m ?colors k) ([], 0) (map fst ?m)"
    have e: "\<forall>t \<in> set (fst ([]::CongruencyTrial list, 0::nat)). showsOwnColour ?m t" by simp
    have "\<forall>t \<in> set (fst ?built). showsOwnColour ?m t"
      by (rule built_own_colour [OF u one' e])
    moreover have "mset (shuffleInPlace rnd (fst ?built) (snd ?built)) = mset (fst ?built)"
      by (rule shuffleInPlace_perm [OF u])
    then have "set (shuffleInPlace rnd (fst ?built) (snd ?built)) = set (fst ?built)"
      by (rule mset_eq_setD)
    ultimately have "\<forall>t \<in> set (shuffleInPlace rnd (fst ?built) (snd ?built)). showsOwnColour ?m t"
      by blast
    then show ?thesis unfolding buildCongruencyTrialsFromPicker_def Let_def .
  qed
  then have a: "unitInterval rnd
      \<and> (\<forall>c \<in> snd ` set ?m. \<forall>c' \<in> snd ` set ?m. c = c') \<longrightarrow>
      (\<forall>t \<in> set (buildCongruencyTrialsFromPicker rnd suffix run k).
          \<not> ct_isCongruent t \<longrightarrow> map_of ?m (ct_grapheme t) = Some (ct_shownRgb t))"
    unfolding showsOwnColour_def by blast
  have b: "length all \<le> 1 \<longrightarrow> fst (pickDifferentColor rnd all target p) = target"
    using pickDifferentColor_short [of all rnd target p] by blast
  show ?thesis
    by (intro conjI a b pickDifferentColor_fallback lastColorByG_lookup)
qed

lemmas trials_eval = buildCongruencyTrialsFromPicker_def lastColorByG_def lastColorStep_def
  trialsOfGrapheme_def trialPair_def pickDifferentColor_def shuffleInPlace_def
  runOf_def picked_def List.map_filter_def Let_def AList.update.simps

theorem incongruent_may_show_own_colour_witness:
  "unitInterval (\<lambda>p. 0)
   \<and> lastColorByG (runOf [picked ''A'' 0 red] []) = [(''A'', red)]
   \<and> map (\<lambda>t. (ct_grapheme t, ct_isCongruent t)) (buildCongruencyTrialsFromPicker (\<lambda>p. 0) (\<lambda>x. []) (runOf [picked ''A'' 0 red] []) 1)
       = [(''A'', False), (''A'', True)]
   \<and> map ct_shownRgb (buildCongruencyTrialsFromPicker (\<lambda>p. 0) (\<lambda>x. []) (runOf [picked ''A'' 0 red] []) 1)
       = [red, red]"
proof -
  let ?run = "runOf [picked ''A'' 0 red] []"
  let ?ts = "buildCongruencyTrialsFromPicker (\<lambda>p. 0) (\<lambda>x. []) ?run 1"
  have u: "unitInterval (\<lambda>p. 0)" by (simp add: unitInterval_def)
  have m: "lastColorByG ?run = [(''A'', red)]" by (simp add: trials_eval)
  then have one: "\<forall>c \<in> snd ` set (lastColorByG ?run). \<forall>c' \<in> snd ` set (lastColorByG ?run). c = c'"
    by simp
  have sh: "map (\<lambda>t. (ct_grapheme t, ct_isCongruent t)) ?ts = [(''A'', False), (''A'', True)]"
    by (simp add: trials_eval)
  then obtain t1 t2 where ts: "?ts = [t1, t2]"
    and t1: "ct_grapheme t1 = ''A''" "\<not> ct_isCongruent t1"
    and t2: "ct_grapheme t2 = ''A''" "ct_isCongruent t2"
    by auto
  note inst = incongruent_may_show_own_colour [of "\<lambda>p. 0" ?run "\<lambda>x. []" 1,
      THEN conjunct1, rule_format, OF conjI [OF u one]]
  have "t1 \<in> set ?ts" unfolding ts by simp
  from inst [OF this t1(2)] have s1: "ct_shownRgb t1 = red" by (simp add: m t1)
  have "map (\<lambda>t. (ct_isCongruent t, ct_shownRgb t)) ?ts ! 1 = (True, red)"
    by (simp add: trials_eval)
  then have "ct_shownRgb t2 = red" unfolding ts by simp
  with s1 have "map ct_shownRgb ?ts = [red, red]" unfolding ts by simp
  with u m sh show ?thesis by (intro conjI)
qed

end
